theory Spec2Isabelle
  imports Main "HOL-Library.AList"
begin

section \<open>Data model\<close>

text \<open>
  The script keeps everything in transient dictionaries that mirror the JSON of the
  platform's API. Each dictionary shape becomes a record with the keys the code reads;
  identifiers and the \<open>order\<close> key are JSON numbers, names and bodies are strings.
  The dictionaries built by \<open>lambda_extract_materials\<close> and
  \<open>lambda_extract_sections\<close> are \<open>material\<close> and \<open>prog_section\<close>; the dictionaries
  of the \<open>learning-programs\<close> response carry further keys, collected in \<open>other\<close>.
\<close>

record material =
  mat_id :: int
  mat_name :: string
  mat_order :: int

record prog_section =
  sec_id :: int
  sec_name :: string
  sec_order :: int
  sec_materials :: "material list"

record program =
  prog_name :: string
  prog_sections :: "prog_section list"
  prog_order :: int

record api_material =
  am_id :: int
  am_name :: string
  am_order :: int
  am_other :: "(string \<times> string) list"

record api_section =
  as_id :: int
  as_name :: string
  as_order :: int
  as_materials :: "api_material list"
  as_other :: "(string \<times> string) list"

record api_program =
  ap_id :: int
  ap_name :: string
  ap_sections :: "api_section list"
  ap_order :: int
  ap_other :: "(string \<times> string) list"

text \<open>An entry of the \<open>materials-cr\<close> response, of the \<open>page_titles\<close> response, the
  dictionary \<open>{'id', 'uuid'}\<close> built from it, and an entry of \<open>longreads_content\<close>.\<close>

record cr_material =
  cr_id :: int
  cr_type :: string

record page_title =
  pt_longread_id :: int
  pt_uuid :: string

record longread =
  lr_id :: int
  lr_uuid :: string

record content_entry =
  ce_id :: int
  ce_content :: string

text \<open>The exceptions of the \<open>configparser\<close> module that reading a file and reading
  an option can raise; all of them are subclasses of \<open>configparser.Error\<close>.\<close>

datatype config_error =
    DuplicateSectionError string
  | DuplicateOptionError string string
  | NoSectionError string
  | NoOptionError string string
  | InterpolationSyntaxError
  | InterpolationMissingOptionError string
  | InterpolationDepthError

text \<open>The exceptions the script can end with.\<close>

datatype error =
    SystemExit string
  | Exception string
  | KeyError string
  | TypeError
  | ConfigParserError config_error

abbreviation newline :: char where
  "newline \<equiv> CHR 0x0A"

abbreviation is_hash :: "char \<Rightarrow> bool" where
  "is_hash \<equiv> (\<lambda>c. c = CHR ''#'')"

section \<open>Heading renumbering\<close>

text \<open>
  \<open>re.sub(r'^(#+)', r'\1' + shift, md, flags=re.MULTILINE)\<close>: the scan goes through the
  text from left to right; \<open>bol\<close> says that the current position is the start of the
  string or directly follows a newline, where \<open>^\<close> matches. There the longest run of
  \<open>#\<close> is the match; it is copied, followed by \<open>shift\<close>, and the scan goes on behind
  the match (which is not a line start). Every other character is copied.
\<close>

function re_sub_headings :: "string \<Rightarrow> bool \<Rightarrow> string \<Rightarrow> string" where
  "re_sub_headings shift bol [] = []"
| "re_sub_headings shift bol (c # cs) =
     (if bol \<and> is_hash c
      then c # takeWhile is_hash cs @ shift @ re_sub_headings shift False (dropWhile is_hash cs)
      else c # re_sub_headings shift (c = newline) cs)"
  by pat_completeness auto
termination
  by (relation "measure (\<lambda>(shift, bol, cs). length cs)")
     (auto simp: less_Suc_eq_le length_dropWhile_le)

text \<open>\<open>shift_headings(md, level)\<close>; \<open>md\<close> is \<open>None\<close> when the caller found no content,
  and \<open>re.sub\<close> raises \<open>TypeError\<close> on it. \<open>'#' * level\<close> is empty for \<open>level \<le> 0\<close>.\<close>

definition shift_headings :: "string option \<Rightarrow> int \<Rightarrow> error + string" where
  "shift_headings md level =
     (let shift = replicate (nat level) CHR ''#''
      in case md of
           None \<Rightarrow> Inl TypeError
         | Some s \<Rightarrow> Inr (re_sub_headings shift True s))"

section \<open>Assembling the Markdown document\<close>

text \<open>\<open>next((x['content'] for x in longreads_content if x['id'] == material['id']), None)\<close>\<close>

definition find_content :: "content_entry list \<Rightarrow> material \<Rightarrow> string option" where
  "find_content longreads_content material =
     map_option ce_content (find (\<lambda>x. ce_id x = mat_id material) longreads_content)"

text \<open>The inner loop of \<open>create_program_content_md\<close> over the sorted materials of one
  section; \<open>program_content_md\<close> is the text accumulated so far.\<close>

fun add_materials :: "content_entry list \<Rightarrow> material list \<Rightarrow> string \<Rightarrow> error + string" where
  "add_materials longreads_content [] program_content_md = Inr program_content_md"
| "add_materials longreads_content (material # materials) program_content_md =
     (case shift_headings (find_content longreads_content material) 1 of
        Inl e \<Rightarrow> Inl e
      | Inr text \<Rightarrow>
          add_materials longreads_content materials
            (program_content_md @ ''# '' @ mat_name material @ [newline, newline, newline]
               @ text @ [newline]))"

text \<open>The outer loop over the sections, in the order given.\<close>

fun add_sections :: "content_entry list \<Rightarrow> prog_section list \<Rightarrow> string \<Rightarrow> error + string" where
  "add_sections longreads_content [] program_content_md = Inr program_content_md"
| "add_sections longreads_content (section # sections) program_content_md =
     (case add_materials longreads_content (sort_key mat_order (sec_materials section))
             program_content_md of
        Inl e \<Rightarrow> Inl e
      | Inr md \<Rightarrow> add_sections longreads_content sections md)"

definition create_program_content_md :: "prog_section list \<Rightarrow> content_entry list \<Rightarrow> error + string" where
  "create_program_content_md sections longreads_content =
     add_sections longreads_content sections []"

section \<open>The platform's API\<close>

text \<open>
  A request names its endpoint and carries what the script puts into the URL and the
  body: \<open>learning-programs?page=..&module_id=..\<close> (GET), \<open>materials-cr?page=..\<close> with
  the body \<open>{'materials': ..}\<close>, \<open>materials/longreads/pages/titles?page=..\<close> with the
  body \<open>{'longreads': ..}\<close>, and \<open>materials/longreads/page\<close> with the body
  \<open>{'longread': .., 'page': ..}\<close> (all POST).
\<close>

datatype request =
    Learning_programs_req int string
  | Materials_cr_req int "int list"
  | Pages_titles_req int "int list"
  | Longread_page_req int string

text \<open>The \<open>page\<close> parameter of the request's URL, where the URL has one.\<close>

fun page_param :: "request \<Rightarrow> int option" where
  "page_param (Learning_programs_req page_num module_id) = Some page_num"
| "page_param (Materials_cr_req page_num materials) = Some page_num"
| "page_param (Pages_titles_req page_num longreads) = Some page_num"
| "page_param (Longread_page_req longread page) = None"

text \<open>
  What \<open>response.json()\<close> holds under \<open>'success'\<close>: the items of the page and
  \<open>meta.pagination.pages_count\<close>, or the \<open>body\<close> of a longread page. The four
  shapes are those of the four endpoints; an operation that receives the shape of
  another endpoint does not find the key it reads, which is a \<open>KeyError\<close>. Responses
  that are not JSON of one of these shapes are outside the model.
\<close>

datatype payload =
    Programs_json "api_program list" int
  | Materials_json "cr_material list" int
  | Titles_json "page_title list" int
  | Page_json string

text \<open>
  The outcome of the \<open>try\<close> block around a request: \<open>requests.get\<close>/\<open>requests.post\<close>
  or \<open>raise_for_status\<close> raised a \<open>RequestException\<close> (with its text), or the
  response arrived with its JSON.
\<close>

datatype response =
    RequestException string
  | Json payload

text \<open>
  The world the script runs in: the answers the host will give to the next requests, in
  order, the requests made so far with their answers, and the writes of files made so
  far, each with its path and content, in the order made (a path written twice holds
  the later content on disk). A run that asks for more answers than \<open>pending\<close> holds
  has no result (\<open>None\<close>).
\<close>

record world =
  pending :: "response list"
  exchanges :: "(request \<times> response) list"
  written :: "(string \<times> string) list"

type_synonym 'a run = "world \<Rightarrow> ((error + 'a) \<times> world) option"

definition http :: "request \<Rightarrow> world \<Rightarrow> (response \<times> world) option" where
  "http req w =
     (case pending w of
        [] \<Rightarrow> None
      | r # rs \<Rightarrow> Some (r, w\<lparr>pending := rs, exchanges := exchanges w @ [(req, r)]\<rparr>))"

text \<open>Sequencing: an exception of the first part ends the run.\<close>

definition bind_run :: "'a run \<Rightarrow> ('a \<Rightarrow> 'b run) \<Rightarrow> 'b run" where
  "bind_run m f w =
     (case m w of
        None \<Rightarrow> None
      | Some (Inl e, w') \<Rightarrow> Some (Inl e, w')
      | Some (Inr x, w') \<Rightarrow> f x w')"

section \<open>Fetching\<close>

definition lambda_extract_materials :: "api_material \<Rightarrow> material" where
  "lambda_extract_materials material =
     \<lparr>mat_id = am_id material, mat_name = am_name material, mat_order = am_order material\<rparr>"

definition lambda_extract_sections :: "api_section \<Rightarrow> prog_section" where
  "lambda_extract_sections section =
     \<lparr>sec_id = as_id section, sec_name = as_name section, sec_order = as_order section,
      sec_materials = map lambda_extract_materials (as_materials section)\<rparr>"

text \<open>The value stored under \<open>program['id']\<close>.\<close>

definition program_entry :: "api_program \<Rightarrow> program" where
  "program_entry program =
     \<lparr>prog_name = ap_name program,
      prog_sections = map lambda_extract_sections (ap_sections program),
      prog_order = ap_order program\<rparr>"

text \<open>
  \<open>programs\<close> is a Python dictionary: it keeps its keys in the order of their first
  insertion, and an assignment to a key already there replaces the value in place. That
  is \<open>AList.update\<close> on a list of pairs.
\<close>

definition store_programs :: "api_program list \<Rightarrow> (int \<times> program) list \<Rightarrow> (int \<times> program) list" where
  "store_programs learning_programs programs =
     fold (\<lambda>program. AList.update (ap_id program) (program_entry program)) learning_programs programs"

text \<open>The \<open>while has_next\<close> loop of \<open>get_learning_programs\<close>, entered with \<open>page_num\<close>
  and the dictionary built so far.\<close>

function programs_loop :: "string \<Rightarrow> int \<Rightarrow> (int \<times> program) list \<Rightarrow> (int \<times> program) list run" where
  "programs_loop module_id page_num programs w =
     (case http (Learning_programs_req page_num module_id) w of
        None \<Rightarrow> None
      | Some (RequestException e, w') \<Rightarrow>
          Some (Inl (SystemExit (''Error while getting learning programs. '' @ e)), w')
      | Some (Json (Programs_json learning_programs pages_count), w') \<Rightarrow>
          (if page_num < pages_count
           then programs_loop module_id (page_num + 1) (store_programs learning_programs programs) w'
           else Some (Inr (store_programs learning_programs programs), w'))
      | Some (Json _, w') \<Rightarrow> Some (Inl (KeyError ''learning_programs''), w'))"
  by pat_completeness auto
termination
  by (relation "measure (\<lambda>(module_id, page_num, programs, w). length (pending w))")
     (auto simp: http_def split: list.splits)

definition get_learning_programs :: "string \<Rightarrow> (int \<times> program) list run" where
  "get_learning_programs module_id = programs_loop module_id 1 []"

text \<open>The \<open>while has_next\<close> loop of \<open>get_longread_ids\<close>.\<close>

function ids_loop :: "int list \<Rightarrow> int \<Rightarrow> int list \<Rightarrow> int list run" where
  "ids_loop materials page_num longreads_ids w =
     (case http (Materials_cr_req page_num materials) w of
        None \<Rightarrow> None
      | Some (RequestException e, w') \<Rightarrow>
          Some (Inl (SystemExit (''Error while getting longread ids. '' @ e)), w')
      | Some (Json (Materials_json ms pages_count), w') \<Rightarrow>
          (let longreads_ids' =
                 longreads_ids @ map cr_id (filter (\<lambda>x. cr_type x = ''longread'') ms)
           in if page_num < pages_count
              then ids_loop materials (page_num + 1) longreads_ids' w'
              else Some (Inr longreads_ids', w'))
      | Some (Json _, w') \<Rightarrow> Some (Inl (KeyError ''materials''), w'))"
  by pat_completeness auto
termination
  by (relation "measure (\<lambda>(materials, page_num, longreads_ids, w). length (pending w))")
     (auto simp: http_def split: list.splits)

definition get_longread_ids :: "program \<Rightarrow> int list run" where
  "get_longread_ids program =
     ids_loop (concat (map (\<lambda>section. map mat_id (sec_materials section)) (prog_sections program)))
       1 []"

text \<open>The \<open>while has_next\<close> loop of \<open>get_longreads_uuids\<close>.\<close>

function uuids_loop :: "int list \<Rightarrow> int \<Rightarrow> longread list \<Rightarrow> longread list run" where
  "uuids_loop longreads_ids page_num longreads w =
     (case http (Pages_titles_req page_num longreads_ids) w of
        None \<Rightarrow> None
      | Some (RequestException e, w') \<Rightarrow>
          Some (Inl (SystemExit (''Error while getting longread uuids. '' @ e)), w')
      | Some (Json (Titles_json page_titles pages_count), w') \<Rightarrow>
          (let longreads' =
                 longreads @ map (\<lambda>x. \<lparr>lr_id = pt_longread_id x, lr_uuid = pt_uuid x\<rparr>) page_titles
           in if page_num < pages_count
              then uuids_loop longreads_ids (page_num + 1) longreads' w'
              else Some (Inr longreads', w'))
      | Some (Json _, w') \<Rightarrow> Some (Inl (KeyError ''page_titles''), w'))"
  by pat_completeness auto
termination
  by (relation "measure (\<lambda>(longreads_ids, page_num, longreads, w). length (pending w))")
     (auto simp: http_def split: list.splits)

definition get_longreads_uuids :: "int list \<Rightarrow> longread list run" where
  "get_longreads_uuids longreads_ids = uuids_loop longreads_ids 1 []"

definition get_longread_content :: "longread \<Rightarrow> string run" where
  "get_longread_content longread w =
     (case http (Longread_page_req (lr_id longread) (lr_uuid longread)) w of
        None \<Rightarrow> None
      | Some (RequestException e, w') \<Rightarrow>
          Some (Inl (SystemExit (''Error while getting longread content. '' @ e)), w')
      | Some (Json (Page_json body), w') \<Rightarrow> Some (Inr body, w')
      | Some (Json _, w') \<Rightarrow> Some (Inl (KeyError ''page''), w'))"

definition filter_longreads :: "program \<Rightarrow> int list \<Rightarrow> program" where
  "filter_longreads program longreads_ids =
     program\<lparr>prog_sections :=
       map (\<lambda>section. section\<lparr>sec_materials :=
              filter (\<lambda>x. mat_id x \<in> set longreads_ids) (sec_materials section)\<rparr>)
           (prog_sections program)\<rparr>"

section \<open>The run\<close>

text \<open>
  The libraries the script hands its work to are parameters of the model:
  \<open>sanitize_filename\<close>, \<open>markdown.markdown\<close> with the table-of-contents extension, and
  \<open>pdfkit.from_file\<close>, which reads the HTML file just written and takes the program's
  name for the footer.
\<close>

record externals =
  sanitize_filename :: "string \<Rightarrow> string"
  markdown :: "string \<Rightarrow> string"
  pdfkit :: "string \<Rightarrow> string \<Rightarrow> string"

definition write_file :: "string \<Rightarrow> string \<Rightarrow> unit run" where
  "write_file path content w = Some (Inr (), w\<lparr>written := written w @ [(path, content)]\<rparr>)"

text \<open>The paths of the three files of a program.\<close>

definition output_paths :: "externals \<Rightarrow> string \<Rightarrow> string list" where
  "output_paths ext name =
     (let file_name = sanitize_filename ext name
      in [''output/md/'' @ file_name @ ''.md'',
          ''output/html/'' @ file_name @ ''.htm'',
          ''output/pdf/'' @ file_name @ ''.pdf''])"

text \<open>\<open>for longread in longreads\<close>: one request for each, its answer appended to
  \<open>longreads_content\<close>.\<close>

fun fetch_contents :: "longread list \<Rightarrow> content_entry list \<Rightarrow> content_entry list run" where
  "fetch_contents [] longreads_content = (\<lambda>w. Some (Inr longreads_content, w))"
| "fetch_contents (longread # longreads) longreads_content =
     bind_run (get_longread_content longread) (\<lambda>content.
       fetch_contents longreads
         (longreads_content @ [\<lparr>ce_id = lr_id longread, ce_content = content\<rparr>]))"

text \<open>
  The body of the loop of \<open>main\<close> for one program; its result is the program as
  stored back into \<open>programs\<close>. All requests come first, then the assembly, then the
  three files in the order md, htm, pdf. Creating the directories and the log lines are
  left out; the libraries are taken not to fail.
\<close>

definition process_program :: "externals \<Rightarrow> program \<Rightarrow> program run" where
  "process_program ext program =
     bind_run (get_longread_ids program) (\<lambda>longreads_ids.
     bind_run (get_longreads_uuids longreads_ids) (\<lambda>longreads.
     bind_run (fetch_contents longreads []) (\<lambda>longreads_content.
       let program' = filter_longreads program longreads_ids;
           sections = sort_key sec_order (prog_sections program');
           file_name = sanitize_filename ext (prog_name program')
       in bind_run (\<lambda>w. Some (create_program_content_md sections longreads_content, w))
            (\<lambda>program_content_md.
          let program_content_md = ''[TOC] '' @ [newline, newline] @ program_content_md;
              html = markdown ext program_content_md
          in bind_run (write_file (''output/md/'' @ file_name @ ''.md'') program_content_md) (\<lambda>_.
             bind_run (write_file (''output/html/'' @ file_name @ ''.htm'') html) (\<lambda>_.
             bind_run (write_file (''output/pdf/'' @ file_name @ ''.pdf'')
                         (pdfkit ext html (prog_name program'))) (\<lambda>_.
               (\<lambda>w. Some (Inr program', w)))))))))"

text \<open>\<open>for program_id in programs\<close>, over the keys the dictionary had when the loop
  began.\<close>

fun process_programs :: "externals \<Rightarrow> int list \<Rightarrow> (int \<times> program) list \<Rightarrow> unit run" where
  "process_programs ext [] programs = (\<lambda>w. Some (Inr (), w))"
| "process_programs ext (program_id # program_ids) programs =
     (case map_of programs program_id of
        None \<Rightarrow> (\<lambda>w. Some (Inl (KeyError ''program_id''), w))
      | Some program \<Rightarrow>
          bind_run (process_program ext program) (\<lambda>program'.
            process_programs ext program_ids (AList.update program_id program' programs)))"

definition main :: "externals \<Rightarrow> string \<Rightarrow> unit run" where
  "main ext module_id =
     bind_run (get_learning_programs module_id) (\<lambda>programs.
       process_programs ext (map fst programs) programs)"

section \<open>Configuration\<close>

















declare re_sub_headings.simps [simp del]
declare programs_loop.simps [simp del]
declare ids_loop.simps [simp del]
declare uuids_loop.simps [simp del]

section \<open>Notions of the specification\<close>

subsection \<open>Lines and headings\<close>

text \<open>The lines of a text, as \<open>text.split('\n')\<close> gives them, and the text of a list of
  lines.\<close>

fun split_lines :: "string \<Rightarrow> string list" where
  "split_lines [] = [[]]"
| "split_lines (c # cs) =
     (if c = newline then [] # split_lines cs
      else (c # hd (split_lines cs)) # tl (split_lines cs))"

fun join_lines :: "string list \<Rightarrow> string" where
  "join_lines [] = []"
| "join_lines [l] = l"
| "join_lines (l # ls) = l @ newline # join_lines ls"


text \<open>A line whose leading run of \<open>#\<close>, if it has one, is extended by \<open>shift\<close>.\<close>

definition extend_run :: "string \<Rightarrow> string \<Rightarrow> string" where
  "extend_run shift line =
     (if takeWhile is_hash line = [] then line
      else takeWhile is_hash line @ shift @ dropWhile is_hash line)"

text \<open>A text in which every line-leading run of \<open>#\<close> is extended by exactly one \<open>#\<close>.\<close>

definition renumber_headings :: "string \<Rightarrow> string" where
  "renumber_headings md = join_lines (map (extend_run ''#'') (split_lines md))"



subsection \<open>The flat document\<close>

text \<open>The materials of the given sections, section by section, each section's materials
  ascending by \<open>order\<close>.\<close>

definition ordered_materials :: "prog_section list \<Rightarrow> material list" where
  "ordered_materials sections =
     concat (map (\<lambda>section. sort_key mat_order (sec_materials section)) sections)"

text \<open>The body found for a material that has an entry in \<open>longreads_content\<close>.\<close>

definition longread_body :: "content_entry list \<Rightarrow> material \<Rightarrow> string" where
  "longread_body longreads_content material = the (find_content longreads_content material)"

definition has_content :: "content_entry list \<Rightarrow> material \<Rightarrow> bool" where
  "has_content longreads_content material =
     (mat_id material \<in> set (map ce_id longreads_content))"

text \<open>The block of one material: \<open>'# ' + name + '\n\n\n' + body + '\n'\<close>.\<close>

definition material_block :: "string \<Rightarrow> string \<Rightarrow> string" where
  "material_block name body = ''# '' @ name @ [newline, newline, newline] @ body @ [newline]"

subsection \<open>The files of a program\<close>

text \<open>The three writes \<open>main\<close> makes for a program with the given name whose assembled
  document is \<open>md\<close>: the document behind the table-of-contents marker, its HTML and
  its PDF.\<close>

definition program_files :: "externals \<Rightarrow> string \<Rightarrow> string \<Rightarrow> (string \<times> string) list" where
  "program_files ext name md =
     (let file_name = sanitize_filename ext name;
          program_content_md = ''[TOC] '' @ [newline, newline] @ md;
          html = markdown ext program_content_md
      in [(''output/md/'' @ file_name @ ''.md'', program_content_md),
          (''output/html/'' @ file_name @ ''.htm'', html),
          (''output/pdf/'' @ file_name @ ''.pdf'', pdfkit ext html name)])"

text \<open>The world after the given programs have been processed one after the other, each
  to its end; there is none when one of them does not reach its end.\<close>

fun processed :: "externals \<Rightarrow> program list \<Rightarrow> world \<Rightarrow> world option" where
  "processed ext [] w = Some w"
| "processed ext (program # programs) w =
     (case process_program ext program w of
        Some (Inr program', w') \<Rightarrow> processed ext programs w'
      | _ \<Rightarrow> None)"

subsection \<open>Requests made by an operation\<close>

text \<open>The exchanges between two states of the world, the earlier one first.\<close>

definition new_exchanges :: "world \<Rightarrow> world \<Rightarrow> (request \<times> response) list" where
  "new_exchanges w w' = drop (length (exchanges w)) (exchanges w')"

fun pages_count_of :: "response \<Rightarrow> int option" where
  "pages_count_of (Json (Programs_json items pages_count)) = Some pages_count"
| "pages_count_of (Json (Materials_json items pages_count)) = Some pages_count"
| "pages_count_of (Json (Titles_json items pages_count)) = Some pages_count"
| "pages_count_of _ = None"

fun programs_of :: "response \<Rightarrow> api_program list" where
  "programs_of (Json (Programs_json items pages_count)) = items"
| "programs_of _ = []"

fun materials_of :: "response \<Rightarrow> cr_material list" where
  "materials_of (Json (Materials_json items pages_count)) = items"
| "materials_of _ = []"

text \<open>The programs on the pages received between two states of the world, in the order
  received.\<close>

definition fetched_programs :: "world \<Rightarrow> world \<Rightarrow> api_program list" where
  "fetched_programs w w' = concat (map (\<lambda>x. programs_of (snd x)) (new_exchanges w w'))"

text \<open>
  What holds of every operation of the script between the world \<open>w\<close> it starts in and
  the world \<open>w'\<close> it ends in with the result \<open>r\<close>: exchanges are only added, and when
  the result is \<open>SystemExit\<close>, the last exchange is a request that raised.
\<close>

definition ends_at_failure :: "world \<Rightarrow> error + 'a \<Rightarrow> world \<Rightarrow> bool" where
  "ends_at_failure w r w' =
     (\<exists>new. exchanges w' = exchanges w @ new
        \<and> (\<forall>msg. r = Inl (SystemExit msg)
              \<longrightarrow> (\<exists>new' req e. new = new' @ [(req, RequestException e)])))"

subsection \<open>Pagination\<close>

text \<open>
  What a successful paginated fetch looks like from outside: the requests carry the page
  numbers \<open>page_num\<close>, \<open>page_num + 1\<close>, ..., every response reports a page count, and
  a further request follows exactly when the page number just asked for is below the
  page count just reported.
\<close>

fun follows_pagination :: "int \<Rightarrow> (request \<times> response) list \<Rightarrow> bool" where
  "follows_pagination page_num [] = False"
| "follows_pagination page_num (x # rest) =
     (page_param (fst x) = Some page_num \<and>
      (case pages_count_of (snd x) of
         None \<Rightarrow> False
       | Some pages_count \<Rightarrow>
           if page_num < pages_count then follows_pagination (page_num + 1) rest
           else rest = []))"

text \<open>
  The pages a paginated fetch reads to its end when it is entered at \<open>page_num\<close>, each
  with its items and the page count it reports: every page but the last reports a page
  count above its page number, and the last does not.
\<close>

fun complete_pages :: "int \<Rightarrow> ('i \<times> int) list \<Rightarrow> bool" where
  "complete_pages page_num [] = False"
| "complete_pages page_num (page # rest) =
     (if page_num < snd page then complete_pages (page_num + 1) rest else rest = [])"

subsection \<open>The common shape of the three loops\<close>

text \<open>
  The three \<open>while has_next\<close> loops are one loop up to the request they send, the key
  they read from the response, the way they merge a page into what they have, and the
  text of their message. \<open>paged_fetch\<close> is that loop with these four as parameters; it
  is not part of the script, and serves to reason about the three loops once.
\<close>

fun decode_programs :: "payload \<Rightarrow> (api_program list \<times> int) option" where
  "decode_programs (Programs_json items pages_count) = Some (items, pages_count)"
| "decode_programs _ = None"

fun decode_materials :: "payload \<Rightarrow> (cr_material list \<times> int) option" where
  "decode_materials (Materials_json items pages_count) = Some (items, pages_count)"
| "decode_materials _ = None"

fun decode_titles :: "payload \<Rightarrow> (page_title list \<times> int) option" where
  "decode_titles (Titles_json items pages_count) = Some (items, pages_count)"
| "decode_titles _ = None"

function paged_fetch ::
  "(int \<Rightarrow> request) \<Rightarrow> (payload \<Rightarrow> ('i \<times> int) option) \<Rightarrow> ('a \<Rightarrow> 'i \<Rightarrow> 'a) \<Rightarrow> string \<Rightarrow> string
     \<Rightarrow> int \<Rightarrow> 'a \<Rightarrow> 'a run" where
  "paged_fetch req decode merge msg key page_num acc w =
     (case http (req page_num) w of
        None \<Rightarrow> None
      | Some (RequestException e, w') \<Rightarrow> Some (Inl (SystemExit (msg @ e)), w')
      | Some (Json j, w') \<Rightarrow>
          (case decode j of
             None \<Rightarrow> Some (Inl (KeyError key), w')
           | Some (items, pages_count) \<Rightarrow>
               if page_num < pages_count
               then paged_fetch req decode merge msg key (page_num + 1) (merge acc items) w'
               else Some (Inr (merge acc items), w')))"
  by pat_completeness auto
termination
  by (relation "measure (\<lambda>(req, decode, merge, msg, key, page_num, acc, w). length (pending w))")
     (auto simp: http_def split: list.splits)

declare paged_fetch.simps [simp del]

text \<open>The items and page count a response holds for a loop that decodes with \<open>decode\<close>.\<close>

fun decoded :: "(payload \<Rightarrow> ('i \<times> int) option) \<Rightarrow> response \<Rightarrow> ('i \<times> int) option" where
  "decoded decode (RequestException e) = None"
| "decoded decode (Json j) = decode j"

text \<open>The responses a successful loop consumes, entered at \<open>page_num\<close>: each decodes, and
  the list ends at the first whose page count is not above its page number.\<close>

fun paged_ok :: "(payload \<Rightarrow> ('i \<times> int) option) \<Rightarrow> int \<Rightarrow> response list \<Rightarrow> bool" where
  "paged_ok decode page_num [] = False"
| "paged_ok decode page_num (r # rs) =
     (case decoded decode r of
        None \<Rightarrow> False
      | Some (items, pages_count) \<Rightarrow>
          if page_num < pages_count then paged_ok decode (page_num + 1) rs else rs = [])"

definition items_of :: "(payload \<Rightarrow> ('i \<times> int) option) \<Rightarrow> response list \<Rightarrow> 'i list" where
  "items_of decode rs = concat (map (\<lambda>r. case decoded decode r of None \<Rightarrow> [] | Some (items, n) \<Rightarrow> [items]) rs)"

section \<open>Sample data\<close>

text \<open>A program with two sections stored against their order, the second of which holds
  two materials stored against their order, and the content fetched for them.\<close>

definition sample_program :: program where
  "sample_program =
     \<lparr>prog_name = ''Course'',
      prog_sections =
        [\<lparr>sec_id = 2, sec_name = ''Later'', sec_order = 20,
          sec_materials = [\<lparr>mat_id = 7, mat_name = ''Third'', mat_order = 1\<rparr>]\<rparr>,
         \<lparr>sec_id = 1, sec_name = ''First'', sec_order = 10,
          sec_materials = [\<lparr>mat_id = 5, mat_name = ''Second'', mat_order = 2\<rparr>,
                           \<lparr>mat_id = 6, mat_name = ''First'', mat_order = 1\<rparr>]\<rparr>],
      prog_order = 1\<rparr>"

definition sample_content :: "content_entry list" where
  "sample_content =
     [\<lparr>ce_id = 5, ce_content = ''# B'' @ [newline] @ ''b #''\<rparr>,
      \<lparr>ce_id = 6, ce_content = ''a'' @ [newline] @ ''## A''\<rparr>,
      \<lparr>ce_id = 7, ce_content = ''c''\<rparr>]"

definition sample_md :: string where
  "sample_md =
     ''# First'' @ [newline, newline, newline] @ ''a'' @ [newline] @ ''### A'' @ [newline]
     @ ''# Second'' @ [newline, newline, newline] @ ''## B'' @ [newline] @ ''b #'' @ [newline]
     @ ''# Third'' @ [newline, newline, newline] @ ''c'' @ [newline]"

text \<open>A world in which nothing has happened yet and the host will give the answers
  \<open>rs\<close>.\<close>

definition world_with :: "response list \<Rightarrow> world" where
  "world_with rs = \<lparr>pending = rs, exchanges = [], written = []\<rparr>"

text \<open>Two programs as the \<open>learning-programs\<close> endpoint reports them, and a third that
  reuses the id of the first.\<close>

definition sample_api_a :: api_program where
  "sample_api_a =
     \<lparr>ap_id = 1, ap_name = ''Alpha'',
      ap_sections =
        [\<lparr>as_id = 1, as_name = ''First'', as_order = 10,
          as_materials =
            [\<lparr>am_id = 5, am_name = ''Second'', am_order = 2, am_other = [(''type'', ''longread'')]\<rparr>,
             \<lparr>am_id = 6, am_name = ''First'', am_order = 1, am_other = []\<rparr>],
          as_other = []\<rparr>],
      ap_order = 1, ap_other = [(''status'', ''open'')]\<rparr>"

definition sample_api_b :: api_program where
  "sample_api_b = \<lparr>ap_id = 2, ap_name = ''Beta'', ap_sections = [], ap_order = 2, ap_other = []\<rparr>"

definition sample_api_c :: api_program where
  "sample_api_c = \<lparr>ap_id = 1, ap_name = ''Gamma'', ap_sections = [], ap_order = 3, ap_other = []\<rparr>"

definition sample_externals :: externals where
  "sample_externals =
     \<lparr>sanitize_filename = (\<lambda>name. name),
      markdown = (\<lambda>md. ''<html>'' @ md),
      pdfkit = (\<lambda>html name. ''%PDF '' @ name)\<rparr>"

definition sample_longread :: longread where
  "sample_longread = \<lparr>lr_id = 5, lr_uuid = ''u5''\<rparr>"


text \<open>A run in which the host reports two programs, answers the two requests for the
  first of them, and fails on the first request for the second.\<close>

definition aborted_world :: world where
  "aborted_world =
     world_with [Json (Programs_json [sample_api_b, sample_api_a] 1),
                 Json (Materials_json [] 1),
                 Json (Titles_json [] 1),
                 RequestException ''timed out'']"

definition aborted_world_end :: world where
  "aborted_world_end =
     \<lparr>pending = [],
      exchanges =
        [(Learning_programs_req 1 ''42'', Json (Programs_json [sample_api_b, sample_api_a] 1)),
         (Materials_cr_req 1 [], Json (Materials_json [] 1)),
         (Pages_titles_req 1 [], Json (Titles_json [] 1)),
         (Materials_cr_req 1 [5, 6], RequestException ''timed out'')],
      written =
        [(''output/md/Beta.md'', ''[TOC] '' @ [newline, newline]),
         (''output/html/Beta.htm'', ''<html>[TOC] '' @ [newline, newline]),
         (''output/pdf/Beta.pdf'', ''%PDF Beta'')]\<rparr>"
section \<open>Properties of lines and of the heading renumbering\<close>

lemma split_lines_nonempty: "split_lines cs \<noteq> []"
  by (induction cs) auto


lemma split_lines_prefix:
  "newline \<notin> set xs \<Longrightarrow> split_lines (xs @ ys) = (xs @ hd (split_lines ys)) # tl (split_lines ys)"
  by (induction xs) (auto simp: split_lines_nonempty)


lemma join_lines_Cons: "ls \<noteq> [] \<Longrightarrow> join_lines (l # ls) = l @ newline # join_lines ls"
  by (cases ls) auto

lemma join_lines_prefix: "join_lines ((a @ l) # ls) = a @ join_lines (l # ls)"
  by (cases ls) auto

lemma join_split_lines: "join_lines (split_lines cs) = cs"
proof (induction cs)
  case Nil then show ?case by simp
next
  case (Cons c cs)
  obtain l ls where s: "split_lines cs = l # ls"
    using split_lines_nonempty [of cs] by (cases "split_lines cs") auto
  show ?case
  proof (cases "c = newline")
    case True
    then show ?thesis using Cons s by simp
  next
    case False
    have "join_lines ((c # l) # ls) = c # join_lines (l # ls)"
      using join_lines_prefix [of "[c]" l ls] by simp
    then show ?thesis using False Cons s by simp
  qed
qed


lemma hd_split_lines_plain:
  "takeWhile is_hash cs = [] \<Longrightarrow> takeWhile is_hash (hd (split_lines cs)) = []"
  by (cases cs) (auto split: if_splits)

lemma extend_run_plain: "takeWhile is_hash l = [] \<Longrightarrow> extend_run shift l = l"
  by (simp add: extend_run_def)

lemma re_sub_headings_lines:
  "re_sub_headings shift bol cs =
     join_lines ((if bol then extend_run shift (hd (split_lines cs)) else hd (split_lines cs))
                 # map (extend_run shift) (tl (split_lines cs)))"
proof (induction shift bol cs rule: re_sub_headings.induct)
  case (1 shift bol)
  then show ?case by (simp add: re_sub_headings.simps extend_run_def)
next
  case (2 shift bol c cs)
  show ?case
  proof (cases "bol \<and> is_hash c")
    case True
    let ?run = "c # takeWhile is_hash cs"
    let ?rest = "dropWhile is_hash cs"
    have cs: "c # cs = ?run @ ?rest" by simp
    have nn: "newline \<notin> set ?run" using True by (auto dest: set_takeWhileD)
    have sp: "split_lines (c # cs) = (?run @ hd (split_lines ?rest)) # tl (split_lines ?rest)"
      using split_lines_prefix [OF nn, of ?rest] by simp
    have "takeWhile is_hash ?rest = []"
      by (induction cs) auto
    then have h: "takeWhile is_hash (hd (split_lines ?rest)) = []"
      by (rule hd_split_lines_plain)
    have allrun: "\<And>x. x \<in> set ?run \<Longrightarrow> is_hash x"
      using True by (auto dest: set_takeWhileD)
    have "takeWhile is_hash (?run @ hd (split_lines ?rest)) = ?run @ takeWhile is_hash (hd (split_lines ?rest))"
      using allrun by (rule takeWhile_append2)
    then have tw: "takeWhile is_hash (?run @ hd (split_lines ?rest)) = ?run"
      using h by simp
    have "dropWhile is_hash (?run @ hd (split_lines ?rest)) = dropWhile is_hash (hd (split_lines ?rest))"
      using allrun by (rule dropWhile_append2)
    also have "\<dots> = hd (split_lines ?rest)"
      using takeWhile_dropWhile_id [of is_hash "hd (split_lines ?rest)"] h by simp
    finally have dw: "dropWhile is_hash (?run @ hd (split_lines ?rest)) = hd (split_lines ?rest)" .
    have "re_sub_headings shift bol (c # cs) = ?run @ shift @ re_sub_headings shift False ?rest"
      using True by (simp add: re_sub_headings.simps)
    also have "\<dots> = ?run @ shift @ join_lines (hd (split_lines ?rest) # map (extend_run shift) (tl (split_lines ?rest)))"
      using 2(1) True by simp
    also have "\<dots> = join_lines ((?run @ shift @ hd (split_lines ?rest)) # map (extend_run shift) (tl (split_lines ?rest)))"
      using join_lines_prefix [of "?run @ shift"] by simp
    also have "?run @ shift @ hd (split_lines ?rest) = extend_run shift (hd (split_lines (c # cs)))"
      unfolding sp extend_run_def using tw dw by simp
    finally show ?thesis using True sp by simp
  next
    case False
    have step: "re_sub_headings shift bol (c # cs) = c # re_sub_headings shift (c = newline) cs"
      using False by (auto simp add: re_sub_headings.simps)
    show ?thesis
    proof (cases "c = newline")
      case True
      have e0: "extend_run shift [] = []"
        by (simp add: extend_run_def)
      have m: "extend_run shift (hd (split_lines cs)) # map (extend_run shift) (tl (split_lines cs))
                 = map (extend_run shift) (split_lines cs)"
        using split_lines_nonempty [of cs] by (cases "split_lines cs") auto
      have ih: "re_sub_headings shift True cs = join_lines (map (extend_run shift) (split_lines cs))"
        using 2(2) False True m by simp
      have j: "join_lines ([] # map (extend_run shift) (split_lines cs))
                 = newline # join_lines (map (extend_run shift) (split_lines cs))"
        using join_lines_Cons [of "map (extend_run shift) (split_lines cs)" "[]"]
          split_lines_nonempty [of cs] by simp
      show ?thesis
        using True step ih e0 j by simp
    next
      case nl: False
      have e: "bol \<Longrightarrow> extend_run shift (c # hd (split_lines cs)) = c # hd (split_lines cs)"
        using False by (simp add: extend_run_def)
      show ?thesis
        using nl step 2(2) False e join_lines_prefix [of "[c]"]
        by (cases bol) simp_all
    qed
  qed
qed

lemma re_sub_headings_renumber: "re_sub_headings ''#'' True md = renumber_headings md"
  using split_lines_nonempty [of md]
  by (cases "split_lines md") (simp_all add: re_sub_headings_lines renumber_headings_def)


section \<open>Properties of the assembly\<close>

lemma find_content_None: "find_content lc m = None \<longleftrightarrow> \<not> has_content lc m"
  by (auto simp: find_content_def has_content_def find_None_iff image_iff)

lemma find_content_Some: "has_content lc m \<Longrightarrow> find_content lc m = Some (longread_body lc m)"
  using find_content_None [of lc m] by (auto simp: longread_body_def)

lemma shift_headings_None: "shift_headings None level = Inl TypeError"
  by (simp add: shift_headings_def)

lemma shift_headings_Some: "shift_headings (Some body) 1 = Inr (renumber_headings body)"
  by (simp add: shift_headings_def re_sub_headings_renumber [symmetric])

lemma add_materials_eq:
  "add_materials lc ms acc =
     (if \<forall>m\<in>set ms. has_content lc m
      then Inr (acc @ concat (map (\<lambda>m. material_block (mat_name m)
                                   (renumber_headings (longread_body lc m))) ms))
      else Inl TypeError)"
proof (induction ms arbitrary: acc)
  case Nil
  then show ?case by simp
next
  case (Cons m ms)
  show ?case
  proof (cases "has_content lc m")
    case True
    then show ?thesis
      using Cons [of "acc @ material_block (mat_name m) (renumber_headings (longread_body lc m))"]
      by (simp add: find_content_Some shift_headings_Some material_block_def)
  next
    case False
    then have "find_content lc m = None" by (simp add: find_content_None)
    then show ?thesis using False by (simp add: shift_headings_None)
  qed
qed

lemma add_sections_eq:
  "add_sections lc ss acc =
     (if \<forall>m\<in>set (ordered_materials ss). has_content lc m
      then Inr (acc @ concat (map (\<lambda>m. material_block (mat_name m)
                                   (renumber_headings (longread_body lc m))) (ordered_materials ss)))
      else Inl TypeError)"
proof (induction ss arbitrary: acc)
  case Nil
  then show ?case by (simp add: ordered_materials_def)
next
  case (Cons s ss)
  have om: "ordered_materials (s # ss) = sort_key mat_order (sec_materials s) @ ordered_materials ss"
    by (simp add: ordered_materials_def)
  show ?case
  proof (cases "\<forall>m\<in>set (sec_materials s). has_content lc m")
    case True
    then show ?thesis
      unfolding om using Cons by (auto simp add: add_materials_eq)
  next
    case False
    then show ?thesis
      unfolding om by (auto simp add: add_materials_eq)
  qed
qed

lemma set_ordered_materials:
  "set (ordered_materials ss) = (\<Union>s\<in>set ss. set (sec_materials s))"
  by (simp add: ordered_materials_def)

text \<open>
  Claim C1. The sections reach \<open>create_program_content_md\<close> as \<open>main\<close> passes them,
  sorted ascending by \<open>order\<close> (Python's \<open>sorted\<close> is stable, as \<open>sort_key\<close> is).
  Whenever the assembly returns a document, that document is the concatenation, over
  these sections in this order and within each over its materials sorted ascending by
  \<open>order\<close>, of \<open>'# ' + name + '\n\n\n' + body + '\n'\<close>, where the body is the content
  found for the material with every line-leading run of \<open>#\<close> extended by exactly one
  \<open>#\<close>.
\<close>

theorem assembled_document:
  assumes "create_program_content_md (sort_key sec_order (prog_sections program)) longreads_content
             = Inr md"
  shows "md = concat (map
           (\<lambda>material. ''# '' @ mat_name material @ [newline, newline, newline]
               @ renumber_headings (longread_body longreads_content material) @ [newline])
           (concat (map (\<lambda>section. sort_key mat_order (sec_materials section))
                        (sort_key sec_order (prog_sections program)))))"
  using assms
  by (simp add: create_program_content_md_def add_sections_eq ordered_materials_def
        material_block_def split: if_splits)

text \<open>
  Claim C8. \<open>create_program_content_md\<close> returns a document exactly when every material
  of the given sections has an entry in \<open>longreads_content\<close>. If some material has
  none, the call ends with \<open>TypeError\<close>: the lookup for a material without an entry
  yields \<open>None\<close>, and \<open>shift_headings\<close> raises on \<open>None\<close>.
\<close>

theorem create_program_content_md_total_iff:
  "((\<exists>md. create_program_content_md sections longreads_content = Inr md)
      \<longleftrightarrow> (\<forall>section\<in>set sections. \<forall>material\<in>set (sec_materials section).
             has_content longreads_content material))
   \<and> ((\<exists>section\<in>set sections. \<exists>material\<in>set (sec_materials section).
          \<not> has_content longreads_content material)
        \<longrightarrow> create_program_content_md sections longreads_content = Inl TypeError)
   \<and> (\<not> has_content longreads_content material
        \<longrightarrow> find_content longreads_content material = None
          \<and> shift_headings (find_content longreads_content material) 1 = Inl TypeError)"
proof (intro conjI impI)
  show "(\<exists>md. create_program_content_md sections longreads_content = Inr md)
      \<longleftrightarrow> (\<forall>section\<in>set sections. \<forall>material\<in>set (sec_materials section).
             has_content longreads_content material)"
    by (auto simp add: create_program_content_md_def add_sections_eq set_ordered_materials)
next
  assume "\<exists>section\<in>set sections. \<exists>material\<in>set (sec_materials section).
          \<not> has_content longreads_content material"
  then show "create_program_content_md sections longreads_content = Inl TypeError"
    by (auto simp add: create_program_content_md_def add_sections_eq set_ordered_materials)
next
  assume "\<not> has_content longreads_content material"
  then show none: "find_content longreads_content material = None"
    by (simp add: find_content_None)
  then show "shift_headings (find_content longreads_content material) 1 = Inl TypeError"
    by (simp add: shift_headings_None)
qed


theorem assembled_document_witness:
  "create_program_content_md (sort_key sec_order (prog_sections sample_program)) sample_content
     = Inr sample_md
   \<and> sample_md = concat (map
           (\<lambda>material. ''# '' @ mat_name material @ [newline, newline, newline]
               @ renumber_headings (longread_body sample_content material) @ [newline])
           (concat (map (\<lambda>section. sort_key mat_order (sec_materials section))
                        (sort_key sec_order (prog_sections sample_program)))))"
proof -
  have h: "create_program_content_md (sort_key sec_order (prog_sections sample_program))
             sample_content = Inr sample_md"
    by code_simp
  show ?thesis
    using h assembled_document [OF h] by simp
qed

theorem create_program_content_md_total_iff_witness:
  "create_program_content_md (prog_sections sample_program) sample_content \<noteq> Inl TypeError
   \<and> create_program_content_md (prog_sections sample_program) (tl sample_content) = Inl TypeError"
proof -
  have a: "\<forall>section\<in>set (prog_sections sample_program). \<forall>material\<in>set (sec_materials section).
             has_content sample_content material"
    by code_simp
  have b: "\<exists>section\<in>set (prog_sections sample_program). \<exists>material\<in>set (sec_materials section).
             \<not> has_content (tl sample_content) material"
    by code_simp
  show ?thesis
    using a b
      create_program_content_md_total_iff [of "prog_sections sample_program" sample_content]
      create_program_content_md_total_iff [of "prog_sections sample_program" "tl sample_content"]
    by auto
qed

section \<open>Properties of the paginated loops\<close>

lemma http_Nil: "pending w = [] \<Longrightarrow> http req w = None"
  by (simp add: http_def)

lemma http_Cons:
  "pending w = r # rs \<Longrightarrow>
   http req w = Some (r, w\<lparr>pending := rs, exchanges := exchanges w @ [(req, r)]\<rparr>)"
  by (simp add: http_def)

lemma upto_from: "p \<le> q \<Longrightarrow> [p..q] = p # [p + 1..q]"
  by (simp add: upto_rec1)

lemma paged_fetch_written:
  "pending w = script \<Longrightarrow> paged_fetch req decode merge msg key p acc w = Some (r, w')
   \<Longrightarrow> written w' = written w"
proof (induction script arbitrary: w p acc)
  case Nil
  then show ?case by (simp add: paged_fetch.simps [of _ _ _ _ _ _ _ w] http_Nil)
next
  case (Cons a script)
  let ?w1 = "w\<lparr>pending := script, exchanges := exchanges w @ [(req p, a)]\<rparr>"
  have w1: "pending ?w1 = script" by simp
  show ?case
    using Cons.prems Cons.IH [OF w1]
    by (subst (asm) paged_fetch.simps)
       (auto simp: http_Cons split: response.splits option.splits prod.splits if_splits)
qed

lemma paged_fetch_success:
  "pending w = script \<Longrightarrow> paged_fetch req decode merge msg key p acc w = Some (Inr res, w')
   \<Longrightarrow> \<exists>rs. pending w = rs @ pending w'
          \<and> exchanges w' = exchanges w @ zip (map req [p..p + int (length rs) - 1]) rs
          \<and> paged_ok decode p rs
          \<and> res = foldl merge acc (items_of decode rs)"
proof (induction script arbitrary: w p acc)
  case Nil
  then show ?case by (simp add: paged_fetch.simps [of _ _ _ _ _ _ _ w] http_Nil)
next
  case (Cons a script)
  let ?w1 = "w\<lparr>pending := script, exchanges := exchanges w @ [(req p, a)]\<rparr>"
  have w1: "pending ?w1 = script" by simp
  have h: "http (req p) w = Some (a, ?w1)"
    using Cons.prems(1) by (rule http_Cons)
  from Cons.prems(2) h obtain j items n where
    a: "a = Json j" and d: "decode j = Some (items, n)"
    by (subst (asm) paged_fetch.simps)
       (auto split: response.splits option.splits prod.splits if_splits)
  show ?case
  proof (cases "p < n")
    case True
    have "paged_fetch req decode merge msg key (p + 1) (merge acc items) ?w1 = Some (Inr res, w')"
      using Cons.prems(2) h a d True by (subst (asm) paged_fetch.simps) simp
    from Cons.IH [OF w1 this] obtain rs where
      rs: "script = rs @ pending w'"
        "exchanges w' = (exchanges w @ [(req p, a)]) @ zip (map req [p + 1..p + 1 + int (length rs) - 1]) rs"
        "paged_ok decode (p + 1) rs"
        "res = foldl merge (merge acc items) (items_of decode rs)"
      by auto
    have up: "[p..p + int (length (a # rs)) - 1] = p # [p + 1..p + 1 + int (length rs) - 1]"
      using upto_from [of p "p + int (length rs)"] by (simp add: add.commute add.left_commute)
    show ?thesis
      apply (rule exI [of _ "a # rs"])
      unfolding up
      using rs a d True Cons.prems(1)
      by (simp add: items_of_def)
  next
    case False
    have "w' = ?w1" "res = merge acc items"
      using Cons.prems(2) h a d False by (subst (asm) paged_fetch.simps, simp)+
    then show ?thesis
      using a d False Cons.prems(1)
      by (intro exI [of _ "[a]"]) (simp add: items_of_def)
  qed
qed

lemma paged_fetch_complete:
  "pending w = rs @ rest \<Longrightarrow> paged_ok decode p rs
   \<Longrightarrow> paged_fetch req decode merge msg key p acc w
       = Some (Inr (foldl merge acc (items_of decode rs)),
               w\<lparr>pending := rest,
                 exchanges := exchanges w @ zip (map req [p..p + int (length rs) - 1]) rs\<rparr>)"
proof (induction rs arbitrary: w p acc)
  case Nil
  then show ?case by simp
next
  case (Cons a rs)
  let ?w1 = "w\<lparr>pending := rs @ rest, exchanges := exchanges w @ [(req p, a)]\<rparr>"
  have w1: "pending ?w1 = rs @ rest" by simp
  have h: "http (req p) w = Some (a, ?w1)"
    using Cons.prems(1) by (simp add: http_Cons)
  from Cons.prems(2) obtain j items n where
    a: "a = Json j" and d: "decode j = Some (items, n)"
    by (cases a) (auto split: option.splits)
  have up: "[p..p + int (length (a # rs)) - 1] = p # [p + 1..p + 1 + int (length rs) - 1]"
    using upto_from [of p "p + int (length rs)"] by (simp add: add.commute add.left_commute)
  show ?case
  proof (cases "p < n")
    case True
    then have ok: "paged_ok decode (p + 1) rs"
      using Cons.prems(2) a d by simp
    show ?thesis
      apply (subst paged_fetch.simps)
      unfolding up
      using h a d True Cons.IH [OF w1 ok, where acc = "merge acc items"]
      by (simp add: items_of_def)
  next
    case False
    then have "rs = []"
      using Cons.prems(2) a d by simp
    then show ?thesis
      apply (subst paged_fetch.simps)
      using h a d False
      by (simp add: items_of_def)
  qed
qed

lemma paged_fetch_failure:
  "pending w = oks @ RequestException e # rest
   \<Longrightarrow> paged_fetch req decode merge msg key p acc (w\<lparr>pending := oks\<rparr>) = None
   \<Longrightarrow> paged_fetch req decode merge msg key p acc w
       = Some (Inl (SystemExit (msg @ e)),
               w\<lparr>pending := rest,
                 exchanges := exchanges w
                   @ zip (map req [p..p + int (length oks)]) (oks @ [RequestException e])\<rparr>)"
proof (induction oks arbitrary: w p acc)
  case Nil
  have h: "http (req p) w
             = Some (RequestException e, w\<lparr>pending := rest, exchanges := exchanges w @ [(req p, RequestException e)]\<rparr>)"
    using Nil.prems(1) by (simp add: http_Cons)
  show ?case
    by (subst paged_fetch.simps) (simp add: h)
next
  case (Cons a oks)
  let ?w0 = "w\<lparr>pending := a # oks\<rparr>"
  let ?w1 = "w\<lparr>pending := oks, exchanges := exchanges w @ [(req p, a)]\<rparr>"
  let ?w2 = "w\<lparr>pending := oks @ RequestException e # rest, exchanges := exchanges w @ [(req p, a)]\<rparr>"
  have h0: "http (req p) ?w0 = Some (a, ?w1)"
    by (simp add: http_def)
  have h: "http (req p) w = Some (a, ?w2)"
    using Cons.prems(1) by (simp add: http_Cons)
  from Cons.prems(2) h0 obtain j items n where
    a: "a = Json j" and d: "decode j = Some (items, n)" and lt: "p < n"
    and none: "paged_fetch req decode merge msg key (p + 1) (merge acc items) ?w1 = None"
    by (subst (asm) paged_fetch.simps)
       (auto split: response.splits option.splits prod.splits if_splits)
  have w2: "pending ?w2 = oks @ RequestException e # rest" by simp
  have eq: "?w2\<lparr>pending := oks\<rparr> = ?w1" by simp
  have e: "p + int (length (a # oks)) = p + 1 + int (length oks)" by simp
  have up: "[p..p + int (length (a # oks))] = p # [p + 1..p + 1 + int (length oks)]"
    unfolding e by (rule upto_from) simp
  from none have "paged_fetch req decode merge msg key (p + 1) (merge acc items)
                    (?w2\<lparr>pending := oks\<rparr>) = None"
    by (simp only: eq)
  note ih = Cons.IH [OF w2 this]
  have step: "paged_fetch req decode merge msg key p acc w
                = paged_fetch req decode merge msg key (p + 1) (merge acc items) ?w2"
    by (subst paged_fetch.simps) (simp add: h a d lt)
  show ?case
    unfolding step ih up by simp
qed

lemma programs_loop_paged:
  "programs_loop module_id page_num programs w =
     paged_fetch (\<lambda>page_num. Learning_programs_req page_num module_id) decode_programs
       (\<lambda>programs items. store_programs items programs)
       ''Error while getting learning programs. '' ''learning_programs'' page_num programs w"
proof (induction module_id page_num programs w rule: programs_loop.induct)
  case (1 module_id page_num programs w)
  show ?case
    apply (subst programs_loop.simps)
    apply (subst paged_fetch.simps)
    apply (auto split: option.splits response.splits payload.splits prod.splits simp: 1)
    done
qed

lemma ids_loop_paged:
  "ids_loop materials page_num longreads_ids w =
     paged_fetch (\<lambda>page_num. Materials_cr_req page_num materials) decode_materials
       (\<lambda>longreads_ids items.
          longreads_ids @ map cr_id (filter (\<lambda>x. cr_type x = ''longread'') items))
       ''Error while getting longread ids. '' ''materials'' page_num longreads_ids w"
proof (induction materials page_num longreads_ids w rule: ids_loop.induct)
  case (1 materials page_num longreads_ids w)
  show ?case
    apply (subst ids_loop.simps)
    apply (subst paged_fetch.simps)
    apply (auto split: option.splits response.splits payload.splits prod.splits simp: 1 Let_def)
    done
qed

lemma uuids_loop_paged:
  "uuids_loop longreads_ids page_num longreads w =
     paged_fetch (\<lambda>page_num. Pages_titles_req page_num longreads_ids) decode_titles
       (\<lambda>longreads items.
          longreads @ map (\<lambda>x. \<lparr>lr_id = pt_longread_id x, lr_uuid = pt_uuid x\<rparr>) items)
       ''Error while getting longread uuids. '' ''page_titles'' page_num longreads w"
proof (induction longreads_ids page_num longreads w rule: uuids_loop.induct)
  case (1 longreads_ids page_num longreads w)
  show ?case
    apply (subst uuids_loop.simps)
    apply (subst paged_fetch.simps)
    apply (auto split: option.splits response.splits payload.splits prod.splits simp: 1 Let_def)
    done
qed

lemma foldl_store_programs:
  "foldl (\<lambda>programs items. store_programs items programs) acc pages
     = store_programs (concat pages) acc"
  by (induction pages arbitrary: acc) (simp_all add: store_programs_def)

lemma foldl_append_map:
  "foldl (\<lambda>acc items. acc @ f items) acc pages = acc @ concat (map f pages)"
  by (induction pages arbitrary: acc) simp_all




section \<open>Claims about the fetch operations\<close>



lemma paged_fetch_new_exchanges:
  assumes "paged_fetch req decode merge msg key p acc w = Some (Inr res, w')"
  shows "\<exists>rs. new_exchanges w w' = zip (map req [p..p + int (length rs) - 1]) rs
            \<and> map fst (new_exchanges w w') = map req [p..p + int (length rs) - 1]
            \<and> map snd (new_exchanges w w') = rs
            \<and> paged_ok decode p rs
            \<and> res = foldl merge acc (items_of decode rs)"
proof -
  from paged_fetch_success [OF refl assms] obtain rs where
    rs: "exchanges w' = exchanges w @ zip (map req [p..p + int (length rs) - 1]) rs"
      "paged_ok decode p rs" "res = foldl merge acc (items_of decode rs)"
    by blast
  have len: "length (map req [p..p + int (length rs) - 1]) = length rs"
    by simp
  have "new_exchanges w w' = zip (map req [p..p + int (length rs) - 1]) rs"
    using rs(1) by (simp add: new_exchanges_def)
  then show ?thesis
    using rs(2,3) map_fst_zip [OF len] map_snd_zip [OF len] by auto
qed

lemma follows_pagination_zip:
  assumes req: "\<And>i. page_param (req i) = Some i"
    and dec: "\<And>r items n. decoded decode r = Some (items, n) \<Longrightarrow> pages_count_of r = Some n"
  shows "paged_ok decode p rs \<Longrightarrow> follows_pagination p (zip (map req [p..p + int (length rs) - 1]) rs)"
proof (induction rs arbitrary: p)
  case Nil
  then show ?case by simp
next
  case (Cons a rs)
  from Cons.prems obtain items n where a: "decoded decode a = Some (items, n)"
    by (auto split: option.splits)
  have e: "p + int (length (a # rs)) - 1 = p + 1 + int (length rs) - 1" by simp
  have up: "[p..p + int (length (a # rs)) - 1] = p # [p + 1..p + 1 + int (length rs) - 1]"
    unfolding e by (rule upto_from) simp
  show ?case
  proof (cases "p < n")
    case True
    then have "paged_ok decode (p + 1) rs" using Cons.prems a by simp
    from Cons.IH [OF this] show ?thesis
      unfolding up using True req dec [OF a] by simp
  next
    case False
    then have "rs = []" using Cons.prems a by simp
    then show ?thesis
      using False req dec [OF a] by simp
  qed
qed

lemma pages_count_of_programs:
  "decoded decode_programs r = Some (items, n) \<Longrightarrow> pages_count_of r = Some n"
  by (cases r rule: pages_count_of.cases) auto

lemma pages_count_of_materials:
  "decoded decode_materials r = Some (items, n) \<Longrightarrow> pages_count_of r = Some n"
  by (cases r rule: pages_count_of.cases) auto

lemma pages_count_of_titles:
  "decoded decode_titles r = Some (items, n) \<Longrightarrow> pages_count_of r = Some n"
  by (cases r rule: pages_count_of.cases) auto

lemma paged_fetch_follows_pagination:
  assumes "paged_fetch req decode merge msg key 1 acc w = Some (Inr res, w')"
    and req: "\<And>i. page_param (req i) = Some i"
    and dec: "\<And>r items n. decoded decode r = Some (items, n) \<Longrightarrow> pages_count_of r = Some n"
  shows "follows_pagination 1 (new_exchanges w w')
       \<and> map fst (new_exchanges w w') = map req [1..int (length (new_exchanges w w'))]"
proof -
  from paged_fetch_new_exchanges [OF assms(1)] obtain rs where
    rs: "new_exchanges w w' = zip (map req [1..1 + int (length rs) - 1]) rs"
      "map fst (new_exchanges w w') = map req [1..1 + int (length rs) - 1]"
      "map snd (new_exchanges w w') = rs"
      "paged_ok decode 1 rs"
    by blast
  have "length (new_exchanges w w') = length rs"
    using rs(3) length_map [of snd "new_exchanges w w'"] by simp
  then show ?thesis
    using follows_pagination_zip [of req decode 1 rs, OF req dec rs(4)] rs(1,2) by simp
qed

lemma get_longread_content_Some:
  "get_longread_content longread w = Some (r, w')
   \<Longrightarrow> \<exists>a rest. pending w = a # rest
         \<and> w' = w\<lparr>pending := rest,
                  exchanges := exchanges w
                    @ [(Longread_page_req (lr_id longread) (lr_uuid longread), a)]\<rparr>"
  by (cases "pending w")
     (auto simp: get_longread_content_def http_def
           split: response.splits payload.splits)

text \<open>
  Claim C4, as the code has it. Three of the four endpoints are paginated: a call of
  \<open>get_learning_programs\<close>, \<open>get_longread_ids\<close> or \<open>get_longreads_uuids\<close> that
  returns its collection has sent its requests with the page numbers 1, 2, ... and has
  gone on to the next page exactly while the page number was below the page count of
  the response just received. The fourth endpoint is not: \<open>get_longread_content\<close>
  sends one request, whose URL has no page number, and never a second one.
\<close>

theorem three_endpoints_paginated:
  "(get_learning_programs module_id w = Some (Inr programs, w')
      \<longrightarrow> follows_pagination 1 (new_exchanges w w')
        \<and> map fst (new_exchanges w w')
            = map (\<lambda>page_num. Learning_programs_req page_num module_id)
                [1..int (length (new_exchanges w w'))])
   \<and> (get_longread_ids program w = Some (Inr longreads_ids, w')
      \<longrightarrow> follows_pagination 1 (new_exchanges w w')
        \<and> map fst (new_exchanges w w')
            = map (\<lambda>page_num. Materials_cr_req page_num
                      (concat (map (\<lambda>section. map mat_id (sec_materials section))
                                   (prog_sections program))))
                [1..int (length (new_exchanges w w'))])
   \<and> (get_longreads_uuids longreads_ids w = Some (Inr longreads, w')
      \<longrightarrow> follows_pagination 1 (new_exchanges w w')
        \<and> map fst (new_exchanges w w')
            = map (\<lambda>page_num. Pages_titles_req page_num longreads_ids)
                [1..int (length (new_exchanges w w'))])
   \<and> (get_longread_content longread w = Some (r, w')
      \<longrightarrow> map fst (new_exchanges w w') = [Longread_page_req (lr_id longread) (lr_uuid longread)]
        \<and> map (\<lambda>x. page_param (fst x)) (new_exchanges w w') = [None])"
proof (intro conjI impI)
  assume "get_learning_programs module_id w = Some (Inr programs, w')"
  then have "paged_fetch (\<lambda>page_num. Learning_programs_req page_num module_id) decode_programs
       (\<lambda>programs items. store_programs items programs)
       ''Error while getting learning programs. '' ''learning_programs'' 1 [] w
       = Some (Inr programs, w')"
    by (simp add: get_learning_programs_def programs_loop_paged)
  from paged_fetch_follows_pagination [OF this _ pages_count_of_programs]
  show "follows_pagination 1 (new_exchanges w w')"
    and "map fst (new_exchanges w w')
            = map (\<lambda>page_num. Learning_programs_req page_num module_id)
                [1..int (length (new_exchanges w w'))]"
    by simp_all
next
  assume "get_longread_ids program w = Some (Inr longreads_ids, w')"
  then have "paged_fetch (\<lambda>page_num. Materials_cr_req page_num
                (concat (map (\<lambda>section. map mat_id (sec_materials section)) (prog_sections program))))
       decode_materials
       (\<lambda>longreads_ids items.
          longreads_ids @ map cr_id (filter (\<lambda>x. cr_type x = ''longread'') items))
       ''Error while getting longread ids. '' ''materials'' 1 [] w
       = Some (Inr longreads_ids, w')"
    by (simp add: get_longread_ids_def ids_loop_paged)
  from paged_fetch_follows_pagination [OF this _ pages_count_of_materials]
  show "follows_pagination 1 (new_exchanges w w')"
    and "map fst (new_exchanges w w')
            = map (\<lambda>page_num. Materials_cr_req page_num
                      (concat (map (\<lambda>section. map mat_id (sec_materials section))
                                   (prog_sections program))))
                [1..int (length (new_exchanges w w'))]"
    by simp_all
next
  assume "get_longreads_uuids longreads_ids w = Some (Inr longreads, w')"
  then have "paged_fetch (\<lambda>page_num. Pages_titles_req page_num longreads_ids) decode_titles
       (\<lambda>longreads items.
          longreads @ map (\<lambda>x. \<lparr>lr_id = pt_longread_id x, lr_uuid = pt_uuid x\<rparr>) items)
       ''Error while getting longread uuids. '' ''page_titles'' 1 [] w
       = Some (Inr longreads, w')"
    by (simp add: get_longreads_uuids_def uuids_loop_paged)
  from paged_fetch_follows_pagination [OF this _ pages_count_of_titles]
  show "follows_pagination 1 (new_exchanges w w')"
    and "map fst (new_exchanges w w')
            = map (\<lambda>page_num. Pages_titles_req page_num longreads_ids)
                [1..int (length (new_exchanges w w'))]"
    by simp_all
next
  assume "get_longread_content longread w = Some (r, w')"
  from get_longread_content_Some [OF this]
  show "map fst (new_exchanges w w') = [Longread_page_req (lr_id longread) (lr_uuid longread)]"
    and "map (\<lambda>x. page_param (fst x)) (new_exchanges w w') = [None]"
    by (auto simp: new_exchanges_def)
qed


theorem three_endpoints_paginated_witness:
  "follows_pagination 1
     [(Learning_programs_req 1 ''42'', Json (Programs_json [sample_api_a] 2)),
      (Learning_programs_req 2 ''42'', Json (Programs_json [sample_api_b] 2))]
   \<and> map (\<lambda>x. page_param (fst x))
        [(Longread_page_req 5 ''u5'', Json (Page_json ''text''))] = [None]"
proof -
  let ?w = "world_with [Json (Programs_json [sample_api_a] 2), Json (Programs_json [sample_api_b] 2)]"
  let ?w' = "\<lparr>pending = [],
            exchanges = [(Learning_programs_req 1 ''42'', Json (Programs_json [sample_api_a] 2)),
                         (Learning_programs_req 2 ''42'', Json (Programs_json [sample_api_b] 2))],
            written = []\<rparr>"
  let ?v = "world_with [Json (Page_json ''text''), Json (Page_json ''more'')]"
  let ?v' = "\<lparr>pending = [Json (Page_json ''more'')],
            exchanges = [(Longread_page_req 5 ''u5'', Json (Page_json ''text''))],
            written = []\<rparr>"
  have a: "get_learning_programs ''42'' ?w
             = Some (Inr [(1, program_entry sample_api_a), (2, program_entry sample_api_b)], ?w')"
    by code_simp
  have b: "get_longread_content sample_longread ?v = Some (Inr ''text'', ?v')"
    by code_simp
  have na: "new_exchanges ?w ?w' = exchanges ?w'"
    by (simp add: new_exchanges_def world_with_def)
  have nb: "new_exchanges ?v ?v' = exchanges ?v'"
    by (simp add: new_exchanges_def world_with_def)
  show ?thesis
    using a b
      three_endpoints_paginated [where module_id = "''42''" and w = ?w and w' = ?w']
      three_endpoints_paginated [where w = ?v and w' = ?v' and longread = sample_longread]
    unfolding na nb by simp
qed

text \<open>Claim C4 as stated fails for the fourth endpoint: the request for a longread
  page carries no page number, its response no page count, and the operation stops
  after this one request although the host has a further answer ready.\<close>

theorem longread_page_not_paginated:
  "get_longread_content sample_longread
       (world_with [Json (Page_json ''text''), Json (Page_json ''more'')])
     = Some (Inr ''text'',
             \<lparr>pending = [Json (Page_json ''more'')],
              exchanges = [(Longread_page_req 5 ''u5'', Json (Page_json ''text''))],
              written = []\<rparr>)
   \<and> page_param (Longread_page_req 5 ''u5'') = None
   \<and> \<not> follows_pagination 1 [(Longread_page_req 5 ''u5'', Json (Page_json ''text''))]"
  by (simp add: get_longread_content_def http_def world_with_def sample_longread_def)

text \<open>
  Claim C2. Let a fetch operation have made requests that the host answered with
  \<open>answered\<close>, and let it go on to a further request (run against \<open>answered\<close> alone,
  it wants more than the host gives). If that request raises a \<open>RequestException\<close>, the
  operation ends with \<open>SystemExit\<close> and the text of its message; the requests it has
  made are those answered and the failing one, which is the last: it is not sent again,
  and the later answers of the host stay unasked. \<open>get_longread_content\<close> makes one
  request only, so there \<open>answered\<close> is empty.
\<close>

theorem request_failure_aborts:
  assumes "pending w = answered @ RequestException e # rest"
  shows "(get_learning_programs module_id (w\<lparr>pending := answered\<rparr>) = None
            \<longrightarrow> get_learning_programs module_id w
                = Some (Inl (SystemExit (''Error while getting learning programs. '' @ e)),
                        w\<lparr>pending := rest,
                          exchanges := exchanges w
                            @ zip (map (\<lambda>page_num. Learning_programs_req page_num module_id)
                                     [1..1 + int (length answered)])
                                  (answered @ [RequestException e])\<rparr>))
       \<and> (get_longread_ids program (w\<lparr>pending := answered\<rparr>) = None
            \<longrightarrow> get_longread_ids program w
                = Some (Inl (SystemExit (''Error while getting longread ids. '' @ e)),
                        w\<lparr>pending := rest,
                          exchanges := exchanges w
                            @ zip (map (\<lambda>page_num. Materials_cr_req page_num
                                         (concat (map (\<lambda>section. map mat_id (sec_materials section))
                                                      (prog_sections program))))
                                     [1..1 + int (length answered)])
                                  (answered @ [RequestException e])\<rparr>))
       \<and> (get_longreads_uuids longreads_ids (w\<lparr>pending := answered\<rparr>) = None
            \<longrightarrow> get_longreads_uuids longreads_ids w
                = Some (Inl (SystemExit (''Error while getting longread uuids. '' @ e)),
                        w\<lparr>pending := rest,
                          exchanges := exchanges w
                            @ zip (map (\<lambda>page_num. Pages_titles_req page_num longreads_ids)
                                     [1..1 + int (length answered)])
                                  (answered @ [RequestException e])\<rparr>))
       \<and> (get_longread_content longread (w\<lparr>pending := answered\<rparr>) = None
            \<longrightarrow> answered = []
              \<and> get_longread_content longread w
                = Some (Inl (SystemExit (''Error while getting longread content. '' @ e)),
                        w\<lparr>pending := rest,
                          exchanges := exchanges w
                            @ [(Longread_page_req (lr_id longread) (lr_uuid longread),
                                RequestException e)]\<rparr>))"
proof (intro conjI impI)
  assume "get_learning_programs module_id (w\<lparr>pending := answered\<rparr>) = None"
  then show "get_learning_programs module_id w
                = Some (Inl (SystemExit (''Error while getting learning programs. '' @ e)),
                        w\<lparr>pending := rest,
                          exchanges := exchanges w
                            @ zip (map (\<lambda>page_num. Learning_programs_req page_num module_id)
                                     [1..1 + int (length answered)])
                                  (answered @ [RequestException e])\<rparr>)"
    unfolding get_learning_programs_def programs_loop_paged
    by (rule paged_fetch_failure [OF assms])
next
  assume "get_longread_ids program (w\<lparr>pending := answered\<rparr>) = None"
  then show "get_longread_ids program w
                = Some (Inl (SystemExit (''Error while getting longread ids. '' @ e)),
                        w\<lparr>pending := rest,
                          exchanges := exchanges w
                            @ zip (map (\<lambda>page_num. Materials_cr_req page_num
                                         (concat (map (\<lambda>section. map mat_id (sec_materials section))
                                                      (prog_sections program))))
                                     [1..1 + int (length answered)])
                                  (answered @ [RequestException e])\<rparr>)"
    unfolding get_longread_ids_def ids_loop_paged
    by (rule paged_fetch_failure [OF assms])
next
  assume "get_longreads_uuids longreads_ids (w\<lparr>pending := answered\<rparr>) = None"
  then show "get_longreads_uuids longreads_ids w
                = Some (Inl (SystemExit (''Error while getting longread uuids. '' @ e)),
                        w\<lparr>pending := rest,
                          exchanges := exchanges w
                            @ zip (map (\<lambda>page_num. Pages_titles_req page_num longreads_ids)
                                     [1..1 + int (length answered)])
                                  (answered @ [RequestException e])\<rparr>)"
    unfolding get_longreads_uuids_def uuids_loop_paged
    by (rule paged_fetch_failure [OF assms])
next
  assume n: "get_longread_content longread (w\<lparr>pending := answered\<rparr>) = None"
  then show a: "answered = []"
    by (cases answered)
       (auto simp: get_longread_content_def http_def split: response.splits payload.splits)
  show "get_longread_content longread w
                = Some (Inl (SystemExit (''Error while getting longread content. '' @ e)),
                        w\<lparr>pending := rest,
                          exchanges := exchanges w
                            @ [(Longread_page_req (lr_id longread) (lr_uuid longread),
                                RequestException e)]\<rparr>)"
    using assms a by (simp add: get_longread_content_def http_def)
qed

theorem request_failure_aborts_witness:
  "get_learning_programs ''42''
     (world_with [Json (Programs_json [sample_api_a] 2), RequestException ''timed out'',
                  Json (Programs_json [sample_api_b] 2)])
   = Some (Inl (SystemExit ''Error while getting learning programs. timed out''),
           \<lparr>pending = [Json (Programs_json [sample_api_b] 2)],
            exchanges = [(Learning_programs_req 1 ''42'', Json (Programs_json [sample_api_a] 2)),
                         (Learning_programs_req 2 ''42'', RequestException ''timed out'')],
            written = []\<rparr>)"
proof -
  let ?w = "world_with [Json (Programs_json [sample_api_a] 2), RequestException ''timed out'',
                  Json (Programs_json [sample_api_b] 2)]"
  have p: "pending ?w = [Json (Programs_json [sample_api_a] 2)] @ RequestException ''timed out''
                          # [Json (Programs_json [sample_api_b] 2)]"
    by (simp add: world_with_def)
  have n: "get_learning_programs ''42'' (?w\<lparr>pending := [Json (Programs_json [sample_api_a] 2)]\<rparr>)
             = None"
    by code_simp
  have u: "[1..1 + int (length [Json (Programs_json [sample_api_a] 2)])] = [1, 2]"
    by (simp add: upto_rec1)
  show ?thesis
    using request_failure_aborts [OF p, of "''42''"] n
    unfolding u by (simp add: world_with_def)
qed

lemma update_fresh: "k \<notin> fst ` set al \<Longrightarrow> AList.update k v al = al @ [(k, v)]"
  by (induction al) auto

lemma store_programs_distinct:
  "distinct (map fst acc @ map ap_id ps)
   \<Longrightarrow> store_programs ps acc = acc @ map (\<lambda>p. (ap_id p, program_entry p)) ps"
proof (induction ps arbitrary: acc)
  case Nil
  then show ?case by (simp add: store_programs_def)
next
  case (Cons p ps)
  have fresh: "ap_id p \<notin> fst ` set acc" using Cons.prems by auto
  have "distinct (map fst (acc @ [(ap_id p, program_entry p)]) @ map ap_id ps)"
    using Cons.prems by auto
  from Cons.IH [OF this] show ?case
    using fresh by (simp add: store_programs_def update_fresh)
qed

lemma concat_items_of_programs:
  "concat (items_of decode_programs rs) = concat (map programs_of rs)"
proof (induction rs)
  case Nil
  then show ?case by (simp add: items_of_def)
next
  case (Cons r rs)
  have "concat (items_of decode_programs [r]) = programs_of r"
    by (cases r rule: programs_of.cases) (simp_all add: items_of_def)
  then show ?case using Cons by (simp add: items_of_def)
qed

lemma concat_items_of_materials:
  "concat (items_of decode_materials rs) = concat (map materials_of rs)"
proof (induction rs)
  case Nil
  then show ?case by (simp add: items_of_def)
next
  case (Cons r rs)
  have "concat (items_of decode_materials [r]) = materials_of r"
    by (cases r rule: materials_of.cases) (simp_all add: items_of_def)
  then show ?case using Cons by (simp add: items_of_def)
qed

lemma get_learning_programs_result:
  assumes "get_learning_programs module_id w = Some (Inr programs, w')"
  shows "programs = store_programs (fetched_programs w w') []"
proof -
  from assms have "paged_fetch (\<lambda>page_num. Learning_programs_req page_num module_id) decode_programs
       (\<lambda>programs items. store_programs items programs)
       ''Error while getting learning programs. '' ''learning_programs'' 1 [] w
       = Some (Inr programs, w')"
    by (simp add: get_learning_programs_def programs_loop_paged)
  from paged_fetch_new_exchanges [OF this] obtain rs where
    rs: "map snd (new_exchanges w w') = rs"
      "programs = foldl (\<lambda>programs items. store_programs items programs) [] (items_of decode_programs rs)"
    by blast
  have "fetched_programs w w' = concat (map programs_of rs)"
    using rs(1) by (auto simp: fetched_programs_def comp_def)
  then show ?thesis
    using rs(2) by (simp add: foldl_store_programs concat_items_of_programs)
qed

text \<open>Claim C5 as stated fails: with ids unique within each page, a program of the
  first page is lost when a program of the second page has its id.\<close>

theorem same_id_on_two_pages_loses_program:
  "distinct (map ap_id [sample_api_a]) \<and> distinct (map ap_id [sample_api_c])
   \<and> get_learning_programs ''42''
        (world_with [Json (Programs_json [sample_api_a] 2), Json (Programs_json [sample_api_c] 2)])
      = Some (Inr [(1, program_entry sample_api_c)],
              \<lparr>pending = [],
               exchanges = [(Learning_programs_req 1 ''42'', Json (Programs_json [sample_api_a] 2)),
                            (Learning_programs_req 2 ''42'', Json (Programs_json [sample_api_c] 2))],
               written = []\<rparr>)
   \<and> prog_name (program_entry sample_api_a) = ''Alpha''
   \<and> prog_name (program_entry sample_api_c) = ''Gamma''"
  by code_simp

section \<open>Properties of the lines of the document\<close>












section \<open>Claim about the headings of the document\<close>




section \<open>Properties of the run\<close>

lemma bind_run_Some:
  "bind_run m f w = Some (r, w')
   \<Longrightarrow> (\<exists>e. m w = Some (Inl e, w') \<and> r = Inl e)
     \<or> (\<exists>x w1. m w = Some (Inr x, w1) \<and> f x w1 = Some (r, w'))"
  by (auto simp: bind_run_def split: option.splits sum.splits prod.splits)

lemma get_longread_ids_written:
  "get_longread_ids program w = Some (r, w') \<Longrightarrow> written w' = written w"
  unfolding get_longread_ids_def ids_loop_paged by (rule paged_fetch_written [OF refl])

lemma get_longreads_uuids_written:
  "get_longreads_uuids longreads_ids w = Some (r, w') \<Longrightarrow> written w' = written w"
  unfolding get_longreads_uuids_def uuids_loop_paged by (rule paged_fetch_written [OF refl])

lemma get_learning_programs_written:
  "get_learning_programs module_id w = Some (r, w') \<Longrightarrow> written w' = written w"
  unfolding get_learning_programs_def programs_loop_paged by (rule paged_fetch_written [OF refl])

lemma get_longread_content_written:
  "get_longread_content longread w = Some (r, w') \<Longrightarrow> written w' = written w"
  using get_longread_content_Some [of longread w r w'] by auto

lemma fetch_contents_written:
  "fetch_contents longreads longreads_content w = Some (r, w') \<Longrightarrow> written w' = written w"
proof (induction longreads arbitrary: longreads_content w)
  case Nil
  then show ?case by simp
next
  case (Cons longread longreads)
  from Cons.prems have
    "bind_run (get_longread_content longread) (\<lambda>content.
       fetch_contents longreads
         (longreads_content @ [\<lparr>ce_id = lr_id longread, ce_content = content\<rparr>])) w = Some (r, w')"
    by simp
  from bind_run_Some [OF this] show ?case
    using get_longread_content_written Cons.IH by (metis)
qed


lemma bind_run_cases [consumes 1, case_names fail ok]:
  assumes "bind_run m f w = Some (r, w')"
  obtains (fail) e where "m w = Some (Inl e, w')" "r = Inl e"
    | (ok) x w1 where "m w = Some (Inr x, w1)" "f x w1 = Some (r, w')"
  using bind_run_Some [OF assms] by blast

lemma filter_longreads_name: "prog_name (filter_longreads program ids) = prog_name program"
  by (simp add: filter_longreads_def)

lemma process_program_written:
  assumes "process_program ext program w = Some (r, w')"
  shows "case r of
           Inl e \<Rightarrow> written w' = written w
         | Inr program' \<Rightarrow>
             prog_name program' = prog_name program
             \<and> map fst (written w') = map fst (written w) @ output_paths ext (prog_name program)"
  using assms unfolding process_program_def
proof (cases rule: bind_run_cases)
  case (fail e)
  then show ?thesis using get_longread_ids_written by auto
next
  case (ok longreads_ids w1)
  have w1: "written w1 = written w"
    using ok(1) by (rule get_longread_ids_written)
  from ok(2) show ?thesis
  proof (cases rule: bind_run_cases)
    case (fail e)
    then show ?thesis using get_longreads_uuids_written w1 by auto
  next
    case (ok longreads w2)
    have w2: "written w2 = written w"
      using ok(1) w1 get_longreads_uuids_written by metis
    from ok(2) show ?thesis
    proof (cases rule: bind_run_cases)
      case (fail e)
      then show ?thesis using fetch_contents_written w2 by auto
    next
      case (ok longreads_content w3)
      have w3: "written w3 = written w"
        using ok(1) w2 fetch_contents_written by metis
      from ok(2) show ?thesis
        using w3
        by (auto simp: Let_def bind_run_def write_file_def output_paths_def filter_longreads_name
              split: sum.splits)
    qed
  qed
qed

lemma store_programs_keys_distinct:
  "distinct (map fst acc) \<Longrightarrow> distinct (map fst (store_programs ps acc))"
  by (induction ps arbitrary: acc) (simp_all add: store_programs_def distinct_update)

lemma get_learning_programs_keys_distinct:
  "get_learning_programs module_id w = Some (Inr programs, w') \<Longrightarrow> distinct (map fst programs)"
  using get_learning_programs_result [of module_id w programs w']
    store_programs_keys_distinct [of "[]"] by simp

lemma paths_by_key:
  assumes "distinct (map fst ps)"
  shows "map (\<lambda>i. g (the (map_of ps i))) (take k (map fst ps))
           = map (\<lambda>(i, p). g p) (take k ps)"
proof -
  have "map (\<lambda>i. g (the (map_of ps i))) (take k (map fst ps))
          = map (\<lambda>x. g (the (map_of ps (fst x)))) (take k ps)"
    by (simp add: take_map comp_def)
  also have "\<dots> = map (\<lambda>(i, p). g p) (take k ps)"
  proof (rule map_cong [OF refl])
    fix x assume "x \<in> set (take k ps)"
    then have "x \<in> set ps" by (rule in_set_takeD)
    then have "map_of ps (fst x) = Some (snd x)"
      using map_of_is_SomeI [OF assms, of "fst x" "snd x"] by simp
    then show "g (the (map_of ps (fst x))) = (case x of (i, p) \<Rightarrow> g p)"
      by (cases x) simp
  qed
  finally show ?thesis .
qed

section \<open>A run aborted after files were written\<close>

text \<open>Claim C3 as stated fails: the run below is aborted by the failure of a request for
  its second program, and the three files of its first program are on disk.\<close>

theorem aborted_run_leaves_files:
  "main sample_externals ''42'' aborted_world
     = Some (Inl (SystemExit ''Error while getting longread ids. timed out''), aborted_world_end)
   \<and> map fst (written aborted_world_end)
       = [''output/md/Beta.md'', ''output/html/Beta.htm'', ''output/pdf/Beta.pdf'']"
  by code_simp


section \<open>Properties of the configuration parser\<close>











section \<open>Claim about the configuration\<close>





section \<open>Properties of pages read to the end\<close>

lemma paged_ok_complete:
  "complete_pages p pages \<Longrightarrow> (\<And>items n. decode (enc items n) = Some (items, n))
   \<Longrightarrow> paged_ok decode p (map (\<lambda>page. Json (enc (fst page) (snd page))) pages)"
proof (induction pages arbitrary: p)
  case Nil
  then show ?case by simp
next
  case (Cons page pages)
  show ?case
  proof (cases "p < snd page")
    case True
    then have "complete_pages (p + 1) pages" using Cons.prems(1) by simp
    from Cons.IH [OF this Cons.prems(2)] show ?thesis
      using True Cons.prems(2) by (simp add: case_prod_beta)
  next
    case False
    then have "pages = []" using Cons.prems(1) by simp
    then show ?thesis using False Cons.prems(2) by (simp add: case_prod_beta)
  qed
qed

lemma items_of_pages:
  "(\<And>items n. decode (enc items n) = Some (items, n))
   \<Longrightarrow> items_of decode (map (\<lambda>page. Json (enc (fst page) (snd page))) pages) = map fst pages"
  by (induction pages) (simp_all add: items_of_def case_prod_beta)

lemma paged_fetch_pages:
  assumes dec: "\<And>items n. decode (enc items n) = Some (items, n)"
    and c: "complete_pages 1 pages"
    and w: "pending w = map (\<lambda>page. Json (enc (fst page) (snd page))) pages @ rest"
  shows "paged_fetch req decode merge msg key 1 acc w
           = Some (Inr (foldl merge acc (map fst pages)),
                   w\<lparr>pending := rest,
                     exchanges := exchanges w
                       @ zip (map req [1..int (length pages)])
                             (map (\<lambda>page. Json (enc (fst page) (snd page))) pages)\<rparr>)"
proof -
  let ?rs = "map (\<lambda>page. Json (enc (fst page) (snd page))) pages"
  have ok: "paged_ok decode 1 ?rs"
    using c dec by (rule paged_ok_complete)
  have len: "1 + int (length ?rs) - 1 = int (length pages)" by simp
  show ?thesis
    using paged_fetch_complete [OF w ok, of req merge msg key acc]
    unfolding len items_of_pages [of decode enc, OF dec] .
qed

lemma store_programs_keys:
  "set (map fst (store_programs ps acc)) = set (map fst acc) \<union> ap_id ` set ps"
proof (induction ps arbitrary: acc)
  case Nil
  then show ?case by (simp add: store_programs_def)
next
  case (Cons p ps)
  have "store_programs (p # ps) acc
          = store_programs ps (AList.update (ap_id p) (program_entry p) acc)"
    by (simp add: store_programs_def)
  then show ?case
    using Cons [of "AList.update (ap_id p) (program_entry p) acc"]
    by (auto simp: dom_update)
qed

lemma find_snoc:
  "find P (xs @ [x])
     = (case find P xs of None \<Rightarrow> if P x then Some x else None | Some q \<Rightarrow> Some q)"
  by (induction xs) simp_all

lemma store_programs_map_of:
  "map_of (store_programs ps acc) i
     = (case find (\<lambda>p. ap_id p = i) (rev ps) of
          None \<Rightarrow> map_of acc i
        | Some p \<Rightarrow> Some (program_entry p))"
proof (induction ps arbitrary: acc)
  case Nil
  then show ?case by (simp add: store_programs_def)
next
  case (Cons p ps)
  have s: "store_programs (p # ps) acc
          = store_programs ps (AList.update (ap_id p) (program_entry p) acc)"
    by (simp add: store_programs_def)
  have f: "find (\<lambda>p. ap_id p = i) (rev (p # ps))
             = (case find (\<lambda>p. ap_id p = i) (rev ps) of
                  None \<Rightarrow> if ap_id p = i then Some p else None
                | Some q \<Rightarrow> Some q)"
    by (simp add: find_snoc)
  show ?case
    unfolding s f Cons [of "AList.update (ap_id p) (program_entry p) acc"]
    by (auto simp: update_conv' split: option.splits)
qed

lemma program_entry_fields:
  "program_entry program
     = \<lparr>prog_name = ap_name program,
        prog_sections =
          map (\<lambda>section.
                 \<lparr>sec_id = as_id section, sec_name = as_name section,
                  sec_order = as_order section,
                  sec_materials =
                    map (\<lambda>material.
                           \<lparr>mat_id = am_id material, mat_name = am_name material,
                            mat_order = am_order material\<rparr>)
                        (as_materials section)\<rparr>)
              (ap_sections program),
        prog_order = ap_order program\<rparr>"
  by (simp add: program_entry_def lambda_extract_sections_def [abs_def]
        lambda_extract_materials_def [abs_def])


section \<open>Claim about the dictionary of programs\<close>

text \<open>
  Claim C5, as the code has it. Let the host answer with pages of programs that the loop
  reads to its end. Then \<open>get_learning_programs\<close> returns a dictionary with exactly one
  entry for each program id on any of the pages. The dictionary is keyed by the id, so
  a program whose id comes again, on the same or on a later page, is replaced: the entry
  of an id holds the last program fetched with it, with its name, its order, and its
  sections and their materials reduced to id, name and order. When the ids on all
  pages together are distinct, the dictionary has exactly one entry for each program on
  any page, in the order fetched.
\<close>

theorem programs_kept_when_ids_distinct:
  assumes "complete_pages 1 pages"
    and "pending w = map (\<lambda>page. Json (Programs_json (fst page) (snd page))) pages @ rest"
  shows "\<exists>programs.
           get_learning_programs module_id w
             = Some (Inr programs,
                     w\<lparr>pending := rest,
                       exchanges := exchanges w
                         @ zip (map (\<lambda>page_num. Learning_programs_req page_num module_id)
                                  [1..int (length pages)])
                               (map (\<lambda>page. Json (Programs_json (fst page) (snd page))) pages)\<rparr>)
           \<and> distinct (map fst programs)
           \<and> set (map fst programs) = ap_id ` set (concat (map fst pages))
           \<and> (\<forall>program_id.
                 map_of programs program_id
                   = map_option
                       (\<lambda>program.
                  \<lparr>prog_name = ap_name program,
                   prog_sections =
                     map (\<lambda>section.
                            \<lparr>sec_id = as_id section, sec_name = as_name section,
                             sec_order = as_order section,
                             sec_materials =
                               map (\<lambda>material.
                                      \<lparr>mat_id = am_id material, mat_name = am_name material,
                                       mat_order = am_order material\<rparr>)
                                   (as_materials section)\<rparr>)
                         (ap_sections program),
                   prog_order = ap_order program\<rparr>)
                       (find (\<lambda>program. ap_id program = program_id)
                             (rev (concat (map fst pages)))))
           \<and> (distinct (map ap_id (concat (map fst pages)))
                \<longrightarrow> programs
                    = map (\<lambda>program. (ap_id program, (\<lambda>program.
                  \<lparr>prog_name = ap_name program,
                   prog_sections =
                     map (\<lambda>section.
                            \<lparr>sec_id = as_id section, sec_name = as_name section,
                             sec_order = as_order section,
                             sec_materials =
                               map (\<lambda>material.
                                      \<lparr>mat_id = am_id material, mat_name = am_name material,
                                       mat_order = am_order material\<rparr>)
                                   (as_materials section)\<rparr>)
                         (ap_sections program),
                   prog_order = ap_order program\<rparr>) program))
                        (concat (map fst pages)))"
proof -
  let ?programs = "store_programs (concat (map fst pages)) []"
  have "paged_fetch (\<lambda>page_num. Learning_programs_req page_num module_id) decode_programs
          (\<lambda>programs items. store_programs items programs)
          ''Error while getting learning programs. '' ''learning_programs'' 1 [] w
        = Some (Inr (foldl (\<lambda>programs items. store_programs items programs) [] (map fst pages)),
                w\<lparr>pending := rest,
                  exchanges := exchanges w
                    @ zip (map (\<lambda>page_num. Learning_programs_req page_num module_id)
                             [1..int (length pages)])
                          (map (\<lambda>page. Json (Programs_json (fst page) (snd page))) pages)\<rparr>)"
    by (rule paged_fetch_pages [where enc = Programs_json, OF _ assms]) simp
  then have g: "get_learning_programs module_id w
             = Some (Inr ?programs,
                     w\<lparr>pending := rest,
                       exchanges := exchanges w
                         @ zip (map (\<lambda>page_num. Learning_programs_req page_num module_id)
                                  [1..int (length pages)])
                               (map (\<lambda>page. Json (Programs_json (fst page) (snd page))) pages)\<rparr>)"
    by (simp add: get_learning_programs_def programs_loop_paged foldl_store_programs)
  have d: "distinct (map fst ?programs)"
    by (rule store_programs_keys_distinct) simp
  have k: "set (map fst ?programs) = ap_id ` set (concat (map fst pages))"
    using store_programs_keys [of "concat (map fst pages)" "[]"] by simp
  have m: "map_of ?programs program_id
             = map_option (\<lambda>program.
                  \<lparr>prog_name = ap_name program,
                   prog_sections =
                     map (\<lambda>section.
                            \<lparr>sec_id = as_id section, sec_name = as_name section,
                             sec_order = as_order section,
                             sec_materials =
                               map (\<lambda>material.
                                      \<lparr>mat_id = am_id material, mat_name = am_name material,
                                       mat_order = am_order material\<rparr>)
                                   (as_materials section)\<rparr>)
                         (ap_sections program),
                   prog_order = ap_order program\<rparr>)
                 (find (\<lambda>program. ap_id program = program_id) (rev (concat (map fst pages))))"
    for program_id
    unfolding store_programs_map_of program_entry_fields [symmetric]
    by (simp split: option.splits)
  have a: "distinct (map ap_id (concat (map fst pages)))
             \<longrightarrow> ?programs
                 = map (\<lambda>program. (ap_id program, (\<lambda>program.
                  \<lparr>prog_name = ap_name program,
                   prog_sections =
                     map (\<lambda>section.
                            \<lparr>sec_id = as_id section, sec_name = as_name section,
                             sec_order = as_order section,
                             sec_materials =
                               map (\<lambda>material.
                                      \<lparr>mat_id = am_id material, mat_name = am_name material,
                                       mat_order = am_order material\<rparr>)
                                   (as_materials section)\<rparr>)
                         (ap_sections program),
                   prog_order = ap_order program\<rparr>) program)) (concat (map fst pages))"
    unfolding program_entry_fields [symmetric]
    using store_programs_distinct [of "[]" "concat (map fst pages)"] by simp
  show ?thesis
    using g d k m a by (intro exI [of _ ?programs] conjI allI)
qed

theorem programs_kept_when_ids_distinct_witness:
  "get_learning_programs ''42''
     (world_with [Json (Programs_json [sample_api_a] 2), Json (Programs_json [sample_api_b] 2)])
   = Some (Inr [(1, \<lparr>prog_name = ''Alpha'',
                     prog_sections =
                       [\<lparr>sec_id = 1, sec_name = ''First'', sec_order = 10,
                         sec_materials =
                           [\<lparr>mat_id = 5, mat_name = ''Second'', mat_order = 2\<rparr>,
                            \<lparr>mat_id = 6, mat_name = ''First'', mat_order = 1\<rparr>]\<rparr>],
                     prog_order = 1\<rparr>),
                (2, \<lparr>prog_name = ''Beta'', prog_sections = [], prog_order = 2\<rparr>)],
           \<lparr>pending = [],
            exchanges = [(Learning_programs_req 1 ''42'', Json (Programs_json [sample_api_a] 2)),
                         (Learning_programs_req 2 ''42'', Json (Programs_json [sample_api_b] 2))],
            written = []\<rparr>)"
proof -
  let ?pages = "[([sample_api_a], 2), ([sample_api_b], 2 :: int)]"
  let ?w = "world_with [Json (Programs_json [sample_api_a] 2), Json (Programs_json [sample_api_b] 2)]"
  have c: "complete_pages 1 ?pages" by simp
  have p: "pending ?w = map (\<lambda>page. Json (Programs_json (fst page) (snd page))) ?pages @ []"
    by (simp add: world_with_def)
  have u: "[1..int (length ?pages)] = [1, 2]" by (simp add: upto_rec1)
  have d: "distinct (map ap_id (concat (map fst ?pages)))"
    by (simp add: sample_api_a_def sample_api_b_def)
  from programs_kept_when_ids_distinct [OF c p, of "''42''"] obtain programs where
    g: "get_learning_programs ''42'' ?w
             = Some (Inr programs,
                     ?w\<lparr>pending := [],
                       exchanges := exchanges ?w
                         @ zip (map (\<lambda>page_num. Learning_programs_req page_num ''42'')
                                  [1..int (length ?pages)])
                               (map (\<lambda>page. Json (Programs_json (fst page) (snd page))) ?pages)\<rparr>)"
    and a: "distinct (map ap_id (concat (map fst ?pages)))
                \<longrightarrow> programs
                    = map (\<lambda>program. (ap_id program, (\<lambda>program.
                  \<lparr>prog_name = ap_name program,
                   prog_sections =
                     map (\<lambda>section.
                            \<lparr>sec_id = as_id section, sec_name = as_name section,
                             sec_order = as_order section,
                             sec_materials =
                               map (\<lambda>material.
                                      \<lparr>mat_id = am_id material, mat_name = am_name material,
                                       mat_order = am_order material\<rparr>)
                                   (as_materials section)\<rparr>)
                         (ap_sections program),
                   prog_order = ap_order program\<rparr>) program))
                        (concat (map fst ?pages))"
    by blast
  from a d have "programs
                    = map (\<lambda>program. (ap_id program, (\<lambda>program.
                  \<lparr>prog_name = ap_name program,
                   prog_sections =
                     map (\<lambda>section.
                            \<lparr>sec_id = as_id section, sec_name = as_name section,
                             sec_order = as_order section,
                             sec_materials =
                               map (\<lambda>material.
                                      \<lparr>mat_id = am_id material, mat_name = am_name material,
                                       mat_order = am_order material\<rparr>)
                                   (as_materials section)\<rparr>)
                         (ap_sections program),
                   prog_order = ap_order program\<rparr>) program))
                        (concat (map fst ?pages))"
    by (rule mp)
  then show ?thesis
    unfolding g u by (simp add: world_with_def sample_api_a_def sample_api_b_def)
qed

section \<open>Properties of the filtered program\<close>

lemma concat_map_filter:
  "concat (map (\<lambda>items. map f (filter P items)) xs) = map f (filter P (concat xs))"
  by (induction xs) simp_all

lemma insort_key_map:
  "(\<And>x. k (f x) = k x) \<Longrightarrow> insort_key k (f x) (map f xs) = map f (insort_key k x xs)"
  by (induction xs) simp_all

lemma sort_key_map:
  "(\<And>x. k (f x) = k x) \<Longrightarrow> sort_key k (map f xs) = map f (sort_key k xs)"
  by (induction xs) (simp_all add: insort_key_map)

lemma ordered_materials_filter:
  "ordered_materials
     (map (\<lambda>section. section\<lparr>sec_materials := filter P (sec_materials section)\<rparr>) sections)
   = filter P (ordered_materials sections)"
  by (induction sections) (simp_all add: ordered_materials_def filter_sort)

lemma document_materials_filter:
  "ordered_materials (sort_key sec_order (prog_sections (filter_longreads program ids)))
     = filter (\<lambda>material. mat_id material \<in> set ids)
         (ordered_materials (sort_key sec_order (prog_sections program)))"
proof -
  let ?f = "\<lambda>section. section\<lparr>sec_materials :=
              filter (\<lambda>x. mat_id x \<in> set ids) (sec_materials section)\<rparr>"
  have "sort_key sec_order (map ?f (prog_sections program))
          = map ?f (sort_key sec_order (prog_sections program))"
    by (rule sort_key_map) simp
  then show ?thesis
    by (simp add: filter_longreads_def ordered_materials_filter)
qed

section \<open>Claim about the longreads of a program\<close>

text \<open>
  Claim C7. Let the host answer the requests of \<open>get_longread_ids\<close> for a program with
  pages of materials that the loop reads to its end. Then \<open>get_longread_ids\<close> asks
  for the ids of all materials of the program and returns the ids of those returned
  materials whose type is \<open>longread\<close>, in the order returned. \<open>filter_longreads\<close> with
  that list leaves the program's name and order and every section's id, name and order
  as they are and keeps in every section the materials whose id is in the list, in
  their order. So the materials of the assembled document are those of the program
  that the host returned with the type \<open>longread\<close>, in the order of the document.
\<close>

theorem longread_ids_and_filter:
  assumes "complete_pages 1 pages"
    and "pending w = map (\<lambda>page. Json (Materials_json (fst page) (snd page))) pages @ rest"
    and "longreads_ids
           = map cr_id (filter (\<lambda>x. cr_type x = ''longread'') (concat (map fst pages)))"
  shows "get_longread_ids program w
           = Some (Inr longreads_ids,
                   w\<lparr>pending := rest,
                     exchanges := exchanges w
                       @ zip (map (\<lambda>page_num. Materials_cr_req page_num
                                    (concat (map (\<lambda>section. map mat_id (sec_materials section))
                                                 (prog_sections program))))
                                [1..int (length pages)])
                             (map (\<lambda>page. Json (Materials_json (fst page) (snd page))) pages)\<rparr>)
       \<and> prog_name (filter_longreads program longreads_ids) = prog_name program
       \<and> prog_order (filter_longreads program longreads_ids) = prog_order program
       \<and> map (\<lambda>section. (sec_id section, sec_name section, sec_order section))
              (prog_sections (filter_longreads program longreads_ids))
           = map (\<lambda>section. (sec_id section, sec_name section, sec_order section))
              (prog_sections program)
       \<and> map sec_materials (prog_sections (filter_longreads program longreads_ids))
           = map (\<lambda>section. filter (\<lambda>material. mat_id material \<in> set longreads_ids)
                               (sec_materials section))
                 (prog_sections program)
       \<and> ordered_materials
             (sort_key sec_order (prog_sections (filter_longreads program longreads_ids)))
           = filter (\<lambda>material. \<exists>x\<in>set (concat (map fst pages)).
                                 cr_id x = mat_id material \<and> cr_type x = ''longread'')
               (ordered_materials (sort_key sec_order (prog_sections program)))"
proof (intro conjI)
  have e: "foldl (\<lambda>longreads_ids items.
                       longreads_ids @ map cr_id (filter (\<lambda>x. cr_type x = ''longread'') items))
                     [] (map fst pages) = longreads_ids"
    unfolding assms(3) foldl_append_map concat_map_filter by simp
  have "paged_fetch (\<lambda>page_num. Materials_cr_req page_num
                (concat (map (\<lambda>section. map mat_id (sec_materials section)) (prog_sections program))))
          decode_materials
          (\<lambda>longreads_ids items.
             longreads_ids @ map cr_id (filter (\<lambda>x. cr_type x = ''longread'') items))
          ''Error while getting longread ids. '' ''materials'' 1 [] w
        = Some (Inr (foldl (\<lambda>longreads_ids items.
                       longreads_ids @ map cr_id (filter (\<lambda>x. cr_type x = ''longread'') items))
                     [] (map fst pages)),
                w\<lparr>pending := rest,
                  exchanges := exchanges w
                    @ zip (map (\<lambda>page_num. Materials_cr_req page_num
                                    (concat (map (\<lambda>section. map mat_id (sec_materials section))
                                                 (prog_sections program))))
                             [1..int (length pages)])
                          (map (\<lambda>page. Json (Materials_json (fst page) (snd page))) pages)\<rparr>)"
    by (rule paged_fetch_pages [where enc = Materials_json, OF _ assms(1,2)]) simp
  then show "get_longread_ids program w
           = Some (Inr longreads_ids,
                   w\<lparr>pending := rest,
                     exchanges := exchanges w
                       @ zip (map (\<lambda>page_num. Materials_cr_req page_num
                                    (concat (map (\<lambda>section. map mat_id (sec_materials section))
                                                 (prog_sections program))))
                                [1..int (length pages)])
                             (map (\<lambda>page. Json (Materials_json (fst page) (snd page))) pages)\<rparr>)"
    unfolding get_longread_ids_def ids_loop_paged e by simp
next
  show "prog_name (filter_longreads program longreads_ids) = prog_name program"
    and "prog_order (filter_longreads program longreads_ids) = prog_order program"
    and "map (\<lambda>section. (sec_id section, sec_name section, sec_order section))
              (prog_sections (filter_longreads program longreads_ids))
           = map (\<lambda>section. (sec_id section, sec_name section, sec_order section))
              (prog_sections program)"
    and "map sec_materials (prog_sections (filter_longreads program longreads_ids))
           = map (\<lambda>section. filter (\<lambda>material. mat_id material \<in> set longreads_ids)
                               (sec_materials section))
                 (prog_sections program)"
    by (simp_all add: filter_longreads_def comp_def)
next
  have "(mat_id material \<in> set longreads_ids)
          = (\<exists>x\<in>set (concat (map fst pages)).
               cr_id x = mat_id material \<and> cr_type x = ''longread'')" for material
    unfolding assms(3) by (force simp: image_iff)
  note eq = this
  show "ordered_materials
             (sort_key sec_order (prog_sections (filter_longreads program longreads_ids)))
           = filter (\<lambda>material. \<exists>x\<in>set (concat (map fst pages)).
                                 cr_id x = mat_id material \<and> cr_type x = ''longread'')
               (ordered_materials (sort_key sec_order (prog_sections program)))"
    unfolding document_materials_filter by (simp only: eq)
qed

theorem longread_ids_and_filter_witness:
  "get_longread_ids sample_program
     (world_with [Json (Materials_json [\<lparr>cr_id = 5, cr_type = ''longread''\<rparr>,
                                        \<lparr>cr_id = 6, cr_type = ''video''\<rparr>] 2),
                  Json (Materials_json [\<lparr>cr_id = 7, cr_type = ''longread''\<rparr>] 2)])
     = Some (Inr [5, 7],
             \<lparr>pending = [],
              exchanges =
                [(Materials_cr_req 1 [7, 5, 6],
                  Json (Materials_json [\<lparr>cr_id = 5, cr_type = ''longread''\<rparr>,
                                        \<lparr>cr_id = 6, cr_type = ''video''\<rparr>] 2)),
                 (Materials_cr_req 2 [7, 5, 6],
                  Json (Materials_json [\<lparr>cr_id = 7, cr_type = ''longread''\<rparr>] 2))],
              written = []\<rparr>)
   \<and> map mat_id (ordered_materials
                    (sort_key sec_order (prog_sections (filter_longreads sample_program [5, 7]))))
       = [5, 7]"
proof -
  let ?pages = "[([\<lparr>cr_id = 5, cr_type = ''longread''\<rparr>, \<lparr>cr_id = 6, cr_type = ''video''\<rparr>], 2),
                 ([\<lparr>cr_id = 7, cr_type = ''longread''\<rparr>], 2 :: int)]"
  let ?w = "world_with [Json (Materials_json [\<lparr>cr_id = 5, cr_type = ''longread''\<rparr>,
                                        \<lparr>cr_id = 6, cr_type = ''video''\<rparr>] 2),
                  Json (Materials_json [\<lparr>cr_id = 7, cr_type = ''longread''\<rparr>] 2)]"
  have c: "complete_pages 1 ?pages" by simp
  have p: "pending ?w = map (\<lambda>page. Json (Materials_json (fst page) (snd page))) ?pages @ []"
    by (simp add: world_with_def)
  have i: "[5, 7] = map cr_id (filter (\<lambda>x. cr_type x = ''longread'') (concat (map fst ?pages)))"
    by simp
  have u: "[1..int (length ?pages)] = [1, 2]" by (simp add: upto_rec1)
  have m: "concat (map (\<lambda>section. map mat_id (sec_materials section))
                       (prog_sections sample_program)) = [7, 5, 6]"
    by (simp add: sample_program_def)
  have o: "map mat_id (filter (\<lambda>material. \<exists>x\<in>set (concat (map fst ?pages)).
                                 cr_id x = mat_id material \<and> cr_type x = ''longread'')
               (ordered_materials (sort_key sec_order (prog_sections sample_program))))
             = [5, 7]"
    by code_simp
  note t = longread_ids_and_filter [OF c p i, of sample_program]
  have a: "get_longread_ids sample_program ?w
     = Some (Inr [5, 7],
             \<lparr>pending = [],
              exchanges =
                [(Materials_cr_req 1 [7, 5, 6],
                  Json (Materials_json [\<lparr>cr_id = 5, cr_type = ''longread''\<rparr>,
                                        \<lparr>cr_id = 6, cr_type = ''video''\<rparr>] 2)),
                 (Materials_cr_req 2 [7, 5, 6],
                  Json (Materials_json [\<lparr>cr_id = 7, cr_type = ''longread''\<rparr>] 2))],
              written = []\<rparr>)"
    using t [THEN conjunct1] unfolding u m by (simp add: world_with_def)
  have b: "map mat_id (ordered_materials
                    (sort_key sec_order (prog_sections (filter_longreads sample_program [5, 7]))))
       = [5, 7]"
    using t [THEN conjunct2, THEN conjunct2, THEN conjunct2, THEN conjunct2, THEN conjunct2] o
    by (simp only:)
  show ?thesis
    using a b by (intro conjI)
qed

section \<open>Properties of an aborted run\<close>

lemma ends_at_failure_refl: "(\<And>msg. r \<noteq> Inl (SystemExit msg)) \<Longrightarrow> ends_at_failure w r w"
  by (simp add: ends_at_failure_def)

lemma ends_at_failure_trans:
  "ends_at_failure w (Inr x) w1 \<Longrightarrow> ends_at_failure w1 r w' \<Longrightarrow> ends_at_failure w r w'"
  unfolding ends_at_failure_def
  by (elim exE conjE) (rule exI, auto)

lemma bind_run_ends:
  assumes m: "\<And>w r w'. m w = Some (r, w') \<Longrightarrow> ends_at_failure w r w'"
    and f: "\<And>x w r w'. f x w = Some (r, w') \<Longrightarrow> ends_at_failure w r w'"
    and b: "bind_run m f w = Some (r, w')"
  shows "ends_at_failure w r w'"
  using b
proof (cases rule: bind_run_cases)
  case (fail e)
  from m [OF fail(1)] show ?thesis
    unfolding fail(2) ends_at_failure_def by auto
next
  case (ok x w1)
  from m [OF ok(1)] f [OF ok(2)] show ?thesis
    by (rule ends_at_failure_trans)
qed

lemma paged_fetch_ends:
  "pending w = script \<Longrightarrow> paged_fetch req decode merge msg key p acc w = Some (r, w')
   \<Longrightarrow> ends_at_failure w r w'"
proof (induction script arbitrary: w p acc)
  case Nil
  then show ?case by (simp add: paged_fetch.simps [of _ _ _ _ _ _ _ w] http_Nil)
next
  case (Cons a script)
  let ?w1 = "w\<lparr>pending := script, exchanges := exchanges w @ [(req p, a)]\<rparr>"
  have w1: "pending ?w1 = script" by simp
  have h: "http (req p) w = Some (a, ?w1)"
    using Cons.prems(1) by (rule http_Cons)
  have step: "ends_at_failure w (Inr ()) ?w1"
    by (simp add: ends_at_failure_def)
  show ?case
  proof (cases a)
    case (RequestException e)
    then have "r = Inl (SystemExit (msg @ e))" "w' = ?w1"
      using Cons.prems(2) h by (subst (asm) paged_fetch.simps, simp)+
    then show ?thesis
      using RequestException by (auto simp: ends_at_failure_def)
  next
    case (Json j)
    show ?thesis
    proof (cases "decode j")
      case None
      then have "r = Inl (KeyError key)" "w' = ?w1"
        using Cons.prems(2) h Json by (subst (asm) paged_fetch.simps, simp)+
      then show ?thesis by (simp add: ends_at_failure_def)
    next
      case (Some page)
      obtain items n where page: "page = (items, n)" by (cases page)
      show ?thesis
      proof (cases "p < n")
        case True
        then have "paged_fetch req decode merge msg key (p + 1) (merge acc items) ?w1 = Some (r, w')"
          using Cons.prems(2) h Json Some page by (subst (asm) paged_fetch.simps) simp
        from Cons.IH [OF w1 this] have "ends_at_failure ?w1 r w'" .
        with step show ?thesis by (rule ends_at_failure_trans)
      next
        case False
        then have "r = Inr (merge acc items)" "w' = ?w1"
          using Cons.prems(2) h Json Some page by (subst (asm) paged_fetch.simps, simp)+
        then show ?thesis by (simp add: ends_at_failure_def)
      qed
    qed
  qed
qed

lemma get_learning_programs_ends:
  "get_learning_programs module_id w = Some (r, w') \<Longrightarrow> ends_at_failure w r w'"
  unfolding get_learning_programs_def programs_loop_paged by (rule paged_fetch_ends [OF refl])

lemma get_longread_ids_ends:
  "get_longread_ids program w = Some (r, w') \<Longrightarrow> ends_at_failure w r w'"
  unfolding get_longread_ids_def ids_loop_paged by (rule paged_fetch_ends [OF refl])

lemma get_longreads_uuids_ends:
  "get_longreads_uuids longreads_ids w = Some (r, w') \<Longrightarrow> ends_at_failure w r w'"
  unfolding get_longreads_uuids_def uuids_loop_paged by (rule paged_fetch_ends [OF refl])

lemma get_longread_content_ends:
  "get_longread_content longread w = Some (r, w') \<Longrightarrow> ends_at_failure w r w'"
  by (cases "pending w")
     (auto simp: get_longread_content_def http_def ends_at_failure_def
           split: response.splits payload.splits)

lemma fetch_contents_ends:
  "fetch_contents longreads longreads_content w = Some (r, w') \<Longrightarrow> ends_at_failure w r w'"
proof (induction longreads arbitrary: longreads_content w r w')
  case Nil
  then show ?case by (auto simp: ends_at_failure_def)
next
  case (Cons longread longreads)
  from Cons.prems have
    "bind_run (get_longread_content longread) (\<lambda>content.
       fetch_contents longreads
         (longreads_content @ [\<lparr>ce_id = lr_id longread, ce_content = content\<rparr>])) w = Some (r, w')"
    by simp
  then show ?case
    by (rule bind_run_ends [rotated 2]) (erule get_longread_content_ends, erule Cons.IH)
qed

lemma create_program_content_md_error:
  "create_program_content_md sections lc = Inl e \<Longrightarrow> e = TypeError"
  by (simp add: create_program_content_md_def add_sections_eq split: if_splits)

lemma write_file_ends: "write_file path content w = Some (r, w') \<Longrightarrow> ends_at_failure w r w'"
  by (auto simp: write_file_def ends_at_failure_def)

lemma process_program_ends:
  assumes "process_program ext program w = Some (r, w')"
  shows "ends_at_failure w r w'"
  using assms unfolding process_program_def Let_def
  apply (rule bind_run_ends [rotated 2])
   apply (erule get_longread_ids_ends)
  apply (erule bind_run_ends [rotated 2])
   apply (erule get_longreads_uuids_ends)
  apply (erule bind_run_ends [rotated 2])
   apply (erule fetch_contents_ends)
  apply (erule bind_run_ends [rotated 2])
   apply (auto simp: ends_at_failure_def dest: create_program_content_md_error) [1]
  apply (erule bind_run_ends [rotated 2])
   apply (erule write_file_ends)
  apply (erule bind_run_ends [rotated 2])
   apply (erule write_file_ends)
  apply (erule bind_run_ends [rotated 2])
   apply (erule write_file_ends)
  apply (auto simp: ends_at_failure_def)
  done


lemma process_program_files:
  assumes "process_program ext program w = Some (Inr program', w')"
  shows "\<exists>md. written w' = written w @ program_files ext (prog_name program) md"
  using assms unfolding process_program_def
proof (cases rule: bind_run_cases)
  case (fail e)
  then show ?thesis by simp
next
  case (ok longreads_ids w1)
  have w1: "written w1 = written w"
    using ok(1) by (rule get_longread_ids_written)
  from ok(2) show ?thesis
  proof (cases rule: bind_run_cases)
    case (fail e)
    then show ?thesis by simp
  next
    case (ok longreads w2)
    have w2: "written w2 = written w"
      using ok(1) w1 get_longreads_uuids_written by metis
    from ok(2) show ?thesis
    proof (cases rule: bind_run_cases)
      case (fail e)
      then show ?thesis by simp
    next
      case (ok longreads_content w3)
      have w3: "written w3 = written w"
        using ok(1) w2 fetch_contents_written by metis
      from ok(2) show ?thesis
        using w3
        by (auto simp: Let_def bind_run_def write_file_def program_files_def
              filter_longreads_name split: sum.splits)
    qed
  qed
qed

lemma process_programs_aborted:
  assumes "distinct program_ids"
    and "process_programs ext program_ids programs w = Some (Inl (SystemExit msg), w')"
  shows "\<exists>k<length program_ids. \<exists>wk mds.
           processed ext (map (\<lambda>i. the (map_of programs i)) (take k program_ids)) w = Some wk
           \<and> process_program ext (the (map_of programs (program_ids ! k))) wk
               = Some (Inl (SystemExit msg), w')
           \<and> length mds = k
           \<and> written w'
               = written w
                 @ concat (map2 (\<lambda>program md. program_files ext (prog_name program) md)
                             (map (\<lambda>i. the (map_of programs i)) (take k program_ids)) mds)"
  using assms
proof (induction program_ids arbitrary: programs w)
  case Nil
  then show ?case by simp
next
  case (Cons program_id program_ids)
  show ?case
  proof (cases "map_of programs program_id")
    case None
    then show ?thesis using Cons.prems(2) by simp
  next
    case (Some program)
    then have "bind_run (process_program ext program) (\<lambda>program'.
            process_programs ext program_ids (AList.update program_id program' programs)) w
              = Some (Inl (SystemExit msg), w')"
      using Cons.prems(2) by simp
    then show ?thesis
    proof (cases rule: bind_run_cases)
      case (fail e)
      then have p: "process_program ext program w = Some (Inl (SystemExit msg), w')"
        by simp
      then have "written w' = written w"
        using process_program_written [of ext program w "Inl (SystemExit msg)" w'] by simp
      then show ?thesis
        using p Some
        by (intro exI [of _ 0] exI [of _ w] exI [of _ "[]"]) simp
    next
      case (ok program' w1)
      from process_program_files [OF ok(1)] obtain md where
        w1: "written w1 = written w @ program_files ext (prog_name program) md"
        by blast
      have d: "distinct program_ids" and fresh: "program_id \<notin> set program_ids"
        using Cons.prems(1) by auto
      let ?programs' = "AList.update program_id program' programs"
      from Cons.IH [OF d ok(2)] obtain k wk mds where k: "k < length program_ids"
        and pr: "processed ext (map (\<lambda>i. the (map_of ?programs' i)) (take k program_ids)) w1
                   = Some wk"
        and pp: "process_program ext (the (map_of ?programs' (program_ids ! k))) wk
                   = Some (Inl (SystemExit msg), w')"
        and len: "length mds = k"
        and wr: "written w'
               = written w1
                 @ concat (map2 (\<lambda>program md. program_files ext (prog_name program) md)
                             (map (\<lambda>i. the (map_of ?programs' i)) (take k program_ids)) mds)"
        by blast
      have same: "map_of ?programs' i = map_of programs i" if "i \<in> set program_ids" for i
        using that fresh by (auto simp: update_conv')
      have sm: "map (\<lambda>i. the (map_of ?programs' i)) (take k program_ids)
                  = map (\<lambda>i. the (map_of programs i)) (take k program_ids)"
        by (intro map_cong refl) (auto simp: same dest: in_set_takeD)
      have sk: "the (map_of ?programs' (program_ids ! k)) = the (map_of programs (program_ids ! k))"
        using k by (simp add: same)
      have c1: "Suc k < length (program_id # program_ids)" using k by simp
      have c2: "processed ext (map (\<lambda>i. the (map_of programs i))
                                (take (Suc k) (program_id # program_ids))) w = Some wk
           \<and> process_program ext (the (map_of programs ((program_id # program_ids) ! Suc k))) wk
               = Some (Inl (SystemExit msg), w')
           \<and> length (md # mds) = Suc k
           \<and> written w'
               = written w
                 @ concat (map2 (\<lambda>program md. program_files ext (prog_name program) md)
                             (map (\<lambda>i. the (map_of programs i))
                                  (take (Suc k) (program_id # program_ids))) (md # mds))"
        using pr pp len wr w1 Some ok(1) unfolding sm sk by simp
      show ?thesis
        apply (rule exI [of _ "Suc k"])
        apply (rule conjI [OF c1])
        apply (rule exI [of _ wk])
        apply (rule exI [of _ "md # mds"])
        apply (rule c2)
        done
    qed
  qed
qed

lemma programs_by_key:
  assumes "distinct (map fst ps)"
  shows "map (\<lambda>i. the (map_of ps i)) (take k (map fst ps)) = map snd (take k ps)"
  using paths_by_key [OF assms, of "\<lambda>p. p" k] by (simp add: case_prod_beta)

lemma program_by_index:
  assumes "distinct (map fst ps)" and "k < length ps"
  shows "the (map_of ps (map fst ps ! k)) = snd (ps ! k)"
proof -
  have "ps ! k \<in> set ps" using assms(2) by simp
  then have "map_of ps (fst (ps ! k)) = Some (snd (ps ! k))"
    using map_of_is_SomeI [OF assms(1), of "fst (ps ! k)" "snd (ps ! k)"] by simp
  then show ?thesis using assms(2) by simp
qed

section \<open>Claim about the files of an aborted run\<close>

text \<open>
  Claim C3, as the code has it. \<open>main\<close> writes the three files of a program as soon as
  that program is fetched and assembled, before it turns to the next program. Let a run
  be aborted by an HTTP failure. If the failure comes while the list of programs is
  fetched, nothing is written. Otherwise there is a program, the \<open>k\<close>-th of the list
  counted from 0, such that all programs before it were processed to their end, and
  the processing of this program made the failing request, which is the last exchange
  of the run; the writes of the run are then exactly the three writes (document, HTML,
  PDF) of each of the \<open>k\<close> programs before it, in their order, and none for this
  program or a later one.
\<close>

theorem files_of_aborted_run:
  assumes "main ext module_id w = Some (Inl (SystemExit msg), w')"
  shows "case get_learning_programs module_id w of
           Some (Inr programs, w1) \<Rightarrow>
             \<exists>k<length programs. \<exists>wk mds.
               processed ext (map snd (take k programs)) w1 = Some wk
               \<and> process_program ext (snd (programs ! k)) wk = Some (Inl (SystemExit msg), w')
               \<and> (\<exists>new req e. exchanges w' = exchanges wk @ new @ [(req, RequestException e)])
               \<and> length mds = k
               \<and> written w'
                   = written w
                     @ concat (map2 (\<lambda>program md. program_files ext (prog_name program) md)
                                 (map snd (take k programs)) mds)
         | _ \<Rightarrow>
             get_learning_programs module_id w = Some (Inl (SystemExit msg), w')
             \<and> (\<exists>new req e. exchanges w' = exchanges w @ new @ [(req, RequestException e)])
             \<and> written w' = written w"
  using assms unfolding main_def
proof (cases rule: bind_run_cases)
  case (fail e)
  then have g: "get_learning_programs module_id w = Some (Inl (SystemExit msg), w')"
    by simp
  have "\<exists>new req e. exchanges w' = exchanges w @ new @ [(req, RequestException e)]"
    using get_learning_programs_ends [OF g] by (auto simp: ends_at_failure_def)
  then show ?thesis
    using g get_learning_programs_written [OF g] by simp
next
  case (ok programs w1)
  have d: "distinct (map fst programs)"
    using ok(1) by (rule get_learning_programs_keys_distinct)
  have w1: "written w1 = written w"
    using ok(1) by (rule get_learning_programs_written)
  from process_programs_aborted [OF d ok(2)] obtain k wk mds where
    k: "k < length programs"
    and pr: "processed ext (map (\<lambda>i. the (map_of programs i)) (take k (map fst programs))) w1
               = Some wk"
    and pp: "process_program ext (the (map_of programs (map fst programs ! k))) wk
               = Some (Inl (SystemExit msg), w')"
    and len: "length mds = k"
    and wr: "written w'
               = written w1
                 @ concat (map2 (\<lambda>program md. program_files ext (prog_name program) md)
                             (map (\<lambda>i. the (map_of programs i)) (take k (map fst programs))) mds)"
    by auto
  note pk = programs_by_key [OF d, of k]
  note pi = program_by_index [OF d k]
  have ex: "\<exists>new req e. exchanges w' = exchanges wk @ new @ [(req, RequestException e)]"
    using process_program_ends [OF pp] by (auto simp: ends_at_failure_def)
  have "\<exists>k<length programs. \<exists>wk mds.
               processed ext (map snd (take k programs)) w1 = Some wk
               \<and> process_program ext (snd (programs ! k)) wk = Some (Inl (SystemExit msg), w')
               \<and> (\<exists>new req e. exchanges w' = exchanges wk @ new @ [(req, RequestException e)])
               \<and> length mds = k
               \<and> written w'
                   = written w
                     @ concat (map2 (\<lambda>program md. program_files ext (prog_name program) md)
                                 (map snd (take k programs)) mds)"
    using k pr pp len wr ex unfolding pk pi w1
    by (intro exI [of _ k] exI [of _ wk] exI [of _ mds] conjI)
  then show ?thesis
    using ok(1) by simp
qed


theorem files_of_aborted_run_witness:
  "written aborted_world_end = program_files sample_externals ''Beta'' []"
proof -
  let ?programs = "[(2 :: int, program_entry sample_api_b), (1, program_entry sample_api_a)]"
  let ?w1 = "\<lparr>pending = [Json (Materials_json [] 1), Json (Titles_json [] 1),
                         RequestException ''timed out''],
              exchanges = [(Learning_programs_req 1 ''42'',
                            Json (Programs_json [sample_api_b, sample_api_a] 1))],
              written = []\<rparr>"
  have m: "main sample_externals ''42'' aborted_world
     = Some (Inl (SystemExit ''Error while getting longread ids. timed out''), aborted_world_end)"
    by code_simp
  have g: "get_learning_programs ''42'' aborted_world = Some (Inr ?programs, ?w1)"
    by code_simp
  have first: "process_program sample_externals (program_entry sample_api_b) ?w1
                 \<noteq> Some (Inl (SystemExit ''Error while getting longread ids. timed out''),
                          aborted_world_end)"
    by code_simp
  have w0: "written aborted_world = []"
    by (simp add: aborted_world_def world_with_def)
  have name: "prog_name (program_entry sample_api_b) = ''Beta''"
    by (simp add: program_entry_def sample_api_b_def)
  have "\<exists>k<length ?programs. \<exists>wk mds.
               processed sample_externals (map snd (take k ?programs)) ?w1 = Some wk
               \<and> process_program sample_externals (snd (?programs ! k)) wk
                   = Some (Inl (SystemExit ''Error while getting longread ids. timed out''),
                           aborted_world_end)
               \<and> (\<exists>new req e. exchanges aborted_world_end
                                  = exchanges wk @ new @ [(req, RequestException e)])
               \<and> length mds = k
               \<and> written aborted_world_end
                   = written aborted_world
                     @ concat (map2 (\<lambda>program md.
                                       program_files sample_externals (prog_name program) md)
                                 (map snd (take k ?programs)) mds)"
    using files_of_aborted_run [OF m] unfolding g by (simp only: option.case prod.case sum.case)
  then obtain k wk mds where k: "k < length ?programs"
    and pr: "processed sample_externals (map snd (take k ?programs)) ?w1 = Some wk"
    and pp: "process_program sample_externals (snd (?programs ! k)) wk
                   = Some (Inl (SystemExit ''Error while getting longread ids. timed out''),
                           aborted_world_end)"
    and len: "length mds = k"
    and wr: "written aborted_world_end
                   = written aborted_world
                     @ concat (map2 (\<lambda>program md.
                                       program_files sample_externals (prog_name program) md)
                                 (map snd (take k ?programs)) mds)"
    by blast
  have "k \<noteq> 0"
  proof
    assume "k = 0"
    then have "wk = ?w1" using pr by simp
    then show False using pp first \<open>k = 0\<close> by auto
  qed
  then have k1: "k = 1" using k by simp
  then obtain md where mds: "mds = [md]"
    using len by (cases mds) auto
  have files: "written aborted_world_end = program_files sample_externals ''Beta'' md"
    using wr unfolding k1 mds w0 by (simp add: name)
  then have "md = []"
    by (simp add: aborted_world_end_def program_files_def sample_externals_def Let_def)
  then show ?thesis using files by simp
qed

end
